theory Spec2Isabelle
  imports Complex_Main "HOL-Library.Sublist"
begin

section \<open>Python values, exceptions and the observable state\<close>

text \<open>
  A Python \<open>str\<close> is the list of its Unicode code points. \<open>lit\<close> turns an ASCII
  literal of the source into such a list.
\<close>

type_synonym pystr = "nat list"

definition lit :: "string \<Rightarrow> pystr" where
  "lit s = map of_char s"

text \<open>
  An exception carries its class (\<open>kind\<close>) and its message. The classes are those the
  program and its libraries name, with their base classes, and \<open>Subclass n bases\<close> for any
  other class: its name and the classes it derives from (the errors of the OpenAI client,
  for one, derive from \<open>OpenAIError\<close>).
\<close>

datatype exn_class =
    BaseException
  | Exception
  | OpenAIError
  | SlackClientError
  | SlackApiError
  | ValueError
  | JSONDecodeError
  | AttributeError
  | LookupError
  | IndexError
  | KeyError
  | OSError
  | RequestException
  | HTTPError
  | Subclass pystr "exn_class list"

record exn =
  kind :: exn_class
  message :: pystr

text \<open>
  The classes above a class (those of its \<open>__mro__\<close> but itself and \<open>object\<close>).
  \<open>except exceptions as e\<close>, with a tuple of classes, catches \<open>e\<close> when
  \<open>isinstance(e, exceptions)\<close>: the class of \<open>e\<close> is one of them or derives from one.
\<close>

fun superclasses :: "exn_class \<Rightarrow> exn_class list" where
  "superclasses BaseException = []"
| "superclasses Exception = [BaseException]"
| "superclasses OpenAIError = [Exception, BaseException]"
| "superclasses SlackClientError = [Exception, BaseException]"
| "superclasses SlackApiError = [SlackClientError, Exception, BaseException]"
| "superclasses ValueError = [Exception, BaseException]"
| "superclasses JSONDecodeError = [ValueError, Exception, BaseException]"
| "superclasses AttributeError = [Exception, BaseException]"
| "superclasses LookupError = [Exception, BaseException]"
| "superclasses IndexError = [LookupError, Exception, BaseException]"
| "superclasses KeyError = [LookupError, Exception, BaseException]"
| "superclasses OSError = [Exception, BaseException]"
| "superclasses RequestException = [OSError, Exception, BaseException]"
| "superclasses HTTPError = [RequestException, OSError, Exception, BaseException]"
| "superclasses (Subclass n bases) = concat (map (\<lambda>c. c # superclasses c) bases)"

definition issubclass :: "exn_class \<Rightarrow> exn_class \<Rightarrow> bool" where
  "issubclass c d = (d = c \<or> d \<in> set (superclasses c))"

definition isinstance :: "exn \<Rightarrow> exn_class list \<Rightarrow> bool" where
  "isinstance e classes = (\<exists>c \<in> set classes. issubclass (kind e) c)"

text \<open>
  What the retry wrapper does besides returning: it calls \<open>func\<close>, it writes one
  \<open>logger.error\<close> line carrying the exception and the current \<open>wait_time\<close>, and it
  sleeps. Waiting times are Python numbers; they are exact rationals here
  (the call sites pass the integers 1 and 2, the default is 0.5).
\<close>

datatype effect =
    Call
  | LogError exn rat
  | Sleep rat
  | Ack

text \<open>
  \<open>TTLCache\<close> entries: key and absolute expiry time, oldest first.
\<close>

type_synonym ttl_links = "(pystr \<times> rat) list"

record 'w st =
  outside :: 'w
  trace :: "effect list"
  processed_ids :: ttl_links

type_synonym ('w, 'a) operation = "'w \<Rightarrow> (exn + 'a) \<times> 'w"

section \<open>The retry decorator\<close>

text \<open>
  \<^verbatim>\<open>
  wait_time = initial_wait
  for i in range(total_tries):
      try:
          return await func(*args, **kwargs)
      except exceptions as e:
          logger.error(...)
          if i == total_tries - 1:
              raise
          else:
              await asyncio.sleep(wait_time)
              wait_time *= backoff_factor
  \<close>
  The loop variable \<open>i\<close> and \<open>wait_time\<close> are the arguments of the recursion. An
  exception that is no instance of a class of \<open>exceptions\<close> is not caught and leaves the
  wrapper at once. When
  the loop ends without a \<open>return\<close> (only for \<open>total_tries = 0\<close>) the wrapper returns
  Python's \<open>None\<close>.
\<close>

function retry_loop ::
  "exn_class list \<Rightarrow> nat \<Rightarrow> rat \<Rightarrow> ('w, 'a) operation \<Rightarrow> nat \<Rightarrow> rat \<Rightarrow> 'w st
     \<Rightarrow> (exn + 'a option) \<times> 'w st" where
  "retry_loop exceptions total_tries backoff_factor func i wait_time s =
     (if i < total_tries then
        (case func (outside s) of
           (Inr v, w) \<Rightarrow> (Inr (Some v), s\<lparr>outside := w, trace := trace s @ [Call]\<rparr>)
         | (Inl e, w) \<Rightarrow>
             if isinstance e exceptions then
               if i = total_tries - 1 then
                 (Inl e, s\<lparr>outside := w, trace := trace s @ [Call, LogError e wait_time]\<rparr>)
               else
                 retry_loop exceptions total_tries backoff_factor func (Suc i)
                   (wait_time * backoff_factor)
                   (s\<lparr>outside := w,
                      trace := trace s @ [Call, LogError e wait_time, Sleep wait_time]\<rparr>)
             else (Inl e, s\<lparr>outside := w, trace := trace s @ [Call]\<rparr>))
      else (Inr None, s))"
  by pat_completeness auto
termination
  by (relation "measure (\<lambda>(exceptions, total_tries, backoff_factor, func, i, wait_time, s).
        total_tries - i)") auto

declare retry_loop.simps [simp del]

definition retry ::
  "exn_class list \<Rightarrow> nat \<Rightarrow> rat \<Rightarrow> rat \<Rightarrow> ('w, 'a) operation \<Rightarrow> 'w st
     \<Rightarrow> (exn + 'a option) \<times> 'w st" where
  "retry exceptions total_tries initial_wait backoff_factor func s =
     retry_loop exceptions total_tries backoff_factor func 0 initial_wait s"

text \<open>Reading a trace: how many calls of \<open>func\<close>, and which sleeps, in order.\<close>

definition calls_of :: "effect list \<Rightarrow> nat" where
  "calls_of tr = length (filter (\<lambda>ev. ev = Call) tr)"

fun sleeps_of :: "effect list \<Rightarrow> rat list" where
  "sleeps_of [] = []"
| "sleeps_of (Sleep d # tr) = d # sleeps_of tr"
| "sleeps_of (ev # tr) = sleeps_of tr"

text \<open>The world after \<open>k\<close> calls of \<open>func\<close>, each starting where the last one ended.\<close>

definition world_after :: "('w, 'a) operation \<Rightarrow> nat \<Rightarrow> 'w \<Rightarrow> 'w" where
  "world_after func k w = ((\<lambda>w. snd (func w)) ^^ k) w"

definition always_fails :: "exn_class list \<Rightarrow> ('w, 'a) operation \<Rightarrow> bool" where
  "always_fails exceptions func =
     (\<forall>w. \<exists>e w'. func w = (Inl e, w') \<and> isinstance e exceptions)"

text \<open>An operation for the examples: it fails with \<open>OpenAIError\<close> and counts its calls.\<close>

definition failing_op :: "(nat, unit) operation" where
  "failing_op w = (Inl \<lparr>kind = OpenAIError, message = lit ''overloaded''\<rparr>, Suc w)"

definition rejecting_op :: "(nat, unit) operation" where
  "rejecting_op w = (Inl \<lparr>kind = KeyError, message = lit ''channel''\<rparr>, Suc w)"

text \<open>
  A second one fails as the OpenAI client does on a rate limit: \<open>RateLimitError\<close> derives
  from \<open>APIStatusError\<close>, that from \<open>APIError\<close>, and that from \<open>OpenAIError\<close>.
\<close>

definition RateLimitError :: exn_class where
  "RateLimitError =
     Subclass (lit ''RateLimitError'')
       [Subclass (lit ''APIStatusError'') [Subclass (lit ''APIError'') [OpenAIError]]]"

definition rate_limited_op :: "(nat, unit) operation" where
  "rate_limited_op w = (Inl \<lparr>kind = RateLimitError, message = lit ''rate limit''\<rparr>, Suc w)"

definition initial_state :: "'w \<Rightarrow> 'w st" where
  "initial_state w = \<lparr>outside = w, trace = [], processed_ids = []\<rparr>"

section \<open>JSON values and the rendering of a reply\<close>

text \<open>
  What \<open>json.loads\<close> returns. A \<open>dict\<close> is an association list read with \<open>map_of\<close>.
  Numbers are never inspected by the program.
\<close>

datatype json =
    JNull
  | JBool bool
  | JNumber rat
  | JString pystr
  | JArray "json list"
  | JObject "(pystr \<times> json) list"

definition newline :: pystr where
  "newline = [10]"

text \<open>The two headings of \<open>format_reply\<close>, as code points (U+8981 U+7D04 and
  U+65E5 U+672C U+8A9E U+7FFB U+8A33), between asterisks.\<close>

definition summary_heading :: pystr where
  "summary_heading = lit ''*'' @ [0x8981, 0x7D04] @ lit ''*''"

definition translation_heading :: pystr where
  "translation_heading = lit ''*'' @ [0x65E5, 0x672C, 0x8A9E, 0x7FFB, 0x8A33] @ lit ''*''"

text \<open>
  A replacement field of an f-string: a \<open>str\<close> is inserted as it is; what Python prints
  for any other value is left to \<open>repr\<close>.
\<close>

fun py_format :: "(json \<Rightarrow> pystr) \<Rightarrow> json \<Rightarrow> pystr" where
  "py_format repr (JString t) = t"
| "py_format repr v = repr v"

text \<open>\<open>args.get(key, default)\<close> and \<open>key in args\<close>.\<close>

definition dict_get :: "(pystr \<times> json) list \<Rightarrow> pystr \<Rightarrow> json \<Rightarrow> json" where
  "dict_get args k d = (case map_of args k of None \<Rightarrow> d | Some v \<Rightarrow> v)"

definition dict_has :: "(pystr \<times> json) list \<Rightarrow> pystr \<Rightarrow> bool" where
  "dict_has args k = (map_of args k \<noteq> None)"

text \<open>
  \<open>format_reply\<close>. \<open>args.get("language")\<close> is \<open>None\<close> for a missing key, which differs
  from \<open>"ja"\<close>. Called on a value that is not a \<open>dict\<close>, \<open>args.get\<close> raises
  \<open>AttributeError\<close>.
\<close>

fun format_reply :: "(json \<Rightarrow> pystr) \<Rightarrow> json \<Rightarrow> exn + (pystr \<times> pystr option)" where
  "format_reply repr (JObject args) =
     (let summary = newline @ summary_heading @ newline
            @ py_format repr (dict_get args (lit ''summary'') (JString (lit ''???''))) @ newline;
          body =
            (if dict_get args (lit ''language'') JNull \<noteq> JString (lit ''ja'')
                \<and> dict_has args (lit ''body_translated'')
             then Some (newline @ translation_heading @ newline
                    @ py_format repr (dict_get args (lit ''body_translated'') (JString (lit ''???'')))
                    @ newline)
             else None)
      in Inr (summary, body))"
| "format_reply repr v = Inl \<lparr>kind = AttributeError, message = lit ''get''\<rparr>"

section \<open>The model's answer and the services\<close>

record function_call =
  name :: pystr
  arguments :: pystr

record message =
  content :: "pystr option"
  function_call :: "function_call option"

record post =
  channel :: pystr
  post_text :: pystr
  thread_ts :: pystr
  reply_broadcast :: bool

record response =
  status_code :: nat
  body_text :: pystr

text \<open>
  The services outside the file: the two clients, \<open>requests.get\<close>, the extractor,
  \<open>json.loads\<close> and Python's printing of values. The clients and \<open>requests.get\<close> act on
  the outside world \<open>'w\<close> and may raise. The request to the model is fixed but for the
  page text, which stands for it. The last two are the checks \<open>urlsplit\<close> makes on an
  authority with brackets (\<open>_check_bracketed_host\<close>) and on one with characters outside
  ASCII (the normalisation in \<open>_checknetloc\<close>); either may raise \<open>ValueError\<close>.
\<close>

record 'w env =
  chat_completions_create :: "pystr \<Rightarrow> ('w, message list) operation"
  chat_postMessage :: "post \<Rightarrow> ('w, unit) operation"
  requests_get :: "pystr \<Rightarrow> ('w, response) operation"
  extract_content :: "pystr \<Rightarrow> pystr \<times> pystr"
  json_loads :: "pystr \<Rightarrow> exn + json"
  py_repr :: "json \<Rightarrow> pystr"
  check_bracketed_host :: "pystr \<Rightarrow> exn + unit"
  checknetloc :: "pystr \<Rightarrow> exn + unit"

definition chat_completion_create ::
  "'w env \<Rightarrow> pystr \<Rightarrow> 'w st \<Rightarrow> (exn + message list option) \<times> 'w st" where
  "chat_completion_create env page = retry [OpenAIError] 3 1 2 (chat_completions_create env page)"

definition chat_post_message ::
  "'w env \<Rightarrow> post \<Rightarrow> 'w st \<Rightarrow> (exn + unit option) \<times> 'w st" where
  "chat_post_message env p = retry [SlackApiError] 3 1 2 (chat_postMessage env p)"

section \<open>Normalising the answer\<close>

text \<open>\<open>str.strip()\<close> removes the characters for which \<open>str.isspace\<close> holds.\<close>

definition isspace :: "nat \<Rightarrow> bool" where
  "isspace c = (c \<in> {9, 10, 11, 12, 13, 28, 29, 30, 31, 32, 133, 160, 5760,
      8192, 8193, 8194, 8195, 8196, 8197, 8198, 8199, 8200, 8201, 8202,
      8232, 8233, 8239, 8287, 12288})"

definition strip :: "pystr \<Rightarrow> pystr" where
  "strip t = rev (dropWhile isspace (rev (dropWhile isspace t)))"

text \<open>\<open>content = (message.content or "???").strip()\<close>\<close>

definition content_or_default :: "message \<Rightarrow> pystr" where
  "content_or_default m =
     (case content m of None \<Rightarrow> lit ''???'' | Some t \<Rightarrow> if t = [] then lit ''???'' else t)"

definition content_of :: "message \<Rightarrow> pystr" where
  "content_of m = strip (content_or_default m)"

definition parse_failed :: "pystr \<Rightarrow> pystr" where
  "parse_failed t = lit ''Parse `content` failed: ```'' @ t @ lit ''```''"

text \<open>
  Lines 138 to 151 of \<open>summerize_text\<close>: the values of \<open>summary\<close> and \<open>body\<close> before
  anything is posted (\<open>None\<close> is Python's \<open>None\<close>), or the exception that leaves the
  function. With a \<open>function_call\<close>, \<open>json.loads\<close> and \<open>format_reply\<close> run outside any
  \<open>try\<close>; without one they run inside \<open>try ... except:\<close>, which catches everything.
\<close>

definition normalize_reply :: "'w env \<Rightarrow> message \<Rightarrow> exn + (pystr option \<times> pystr option)" where
  "normalize_reply env m =
     (case function_call m of
        Some fc \<Rightarrow>
          if name fc = lit ''reply_processed_text'' then
            (case json_loads env (arguments fc) of
               Inl e \<Rightarrow> Inl e
             | Inr args \<Rightarrow>
                 (case format_reply (py_repr env) args of
                    Inl e \<Rightarrow> Inl e
                  | Inr (summary, body) \<Rightarrow> Inr (Some summary, body)))
          else Inr (None, None)
      | None \<Rightarrow>
          (case json_loads env (content_of m) of
             Inl e \<Rightarrow> Inr (None, Some (parse_failed (content_of m)))
           | Inr args \<Rightarrow>
               (case format_reply (py_repr env) args of
                  Inl e \<Rightarrow> Inr (None, Some (parse_failed (content_of m)))
                | Inr (summary, body) \<Rightarrow> Inr (Some summary, body))))"

text \<open>\<open>if summary:\<close> holds for a string that is neither \<open>None\<close> nor empty.\<close>

definition truthy :: "pystr option \<Rightarrow> bool" where
  "truthy t = (case t of None \<Rightarrow> False | Some u \<Rightarrow> u \<noteq> [])"

section \<open>Summarising a page and posting the reply\<close>

record event =
  ev_channel :: pystr
  event_ts :: pystr
  ts :: pystr
  previous_message :: "json option"
  blocks :: "(pystr option \<times> pystr option) list list list"

text \<open>
  An item of a block element is read through \<open>item.get("type")\<close> and \<open>item["url"]\<close>
  only; it is the pair of the two, \<open>None\<close> for a missing key.
\<close>

definition summary_post :: "event \<Rightarrow> pystr \<Rightarrow> post" where
  "summary_post ev t =
     \<lparr>channel = ev_channel ev, post_text = t, thread_ts = ts ev, reply_broadcast = True\<rparr>"

definition body_post :: "event \<Rightarrow> pystr \<Rightarrow> post" where
  "body_post ev t =
     \<lparr>channel = ev_channel ev, post_text = t, thread_ts = ts ev, reply_broadcast = False\<rparr>"

text \<open>
  Lines 153 to 169: the summary is posted first, then the body; each \<open>await\<close> stands
  alone, so an exception of the first leaves the function before the second.
\<close>

definition post_segments ::
  "'w env \<Rightarrow> event \<Rightarrow> pystr option \<Rightarrow> pystr option \<Rightarrow> 'w st \<Rightarrow> (exn + unit) \<times> 'w st" where
  "post_segments env ev summary body s =
     (case (if truthy summary then chat_post_message env (summary_post ev (the summary)) s
            else (Inr None, s)) of
        (Inl e, s1) \<Rightarrow> (Inl e, s1)
      | (Inr _, s1) \<Rightarrow>
          (case (if truthy body then chat_post_message env (body_post ev (the body)) s1
                 else (Inr None, s1)) of
             (Inl e, s2) \<Rightarrow> (Inl e, s2)
           | (Inr _, s2) \<Rightarrow> (Inr (), s2)))"

text \<open>
  \<open>summerize_text\<close>. \<open>completion.choices[0]\<close> raises \<open>IndexError\<close> on an empty list;
  the decorated call returns \<open>None\<close> only if it never ran, and \<open>None.choices\<close> raises
  \<open>AttributeError\<close>.
\<close>

definition summerize_text ::
  "'w env \<Rightarrow> event \<Rightarrow> pystr \<Rightarrow> 'w st \<Rightarrow> (exn + unit) \<times> 'w st" where
  "summerize_text env ev page s =
     (case chat_completion_create env page s of
        (Inl e, s1) \<Rightarrow> (Inl e, s1)
      | (Inr None, s1) \<Rightarrow> (Inl \<lparr>kind = AttributeError, message = lit ''choices''\<rparr>, s1)
      | (Inr (Some choices), s1) \<Rightarrow>
          (case choices of
             [] \<Rightarrow> (Inl \<lparr>kind = IndexError, message = lit ''list index out of range''\<rparr>, s1)
           | m # _ \<Rightarrow>
               (case normalize_reply env m of
                  Inl e \<Rightarrow> (Inl e, s1)
                | Inr (summary, body) \<Rightarrow> post_segments env ev summary body s1)))"

section \<open>Processing one link\<close>

text \<open>
  \<open>urllib.parse\<close> is a library, not part of the source. The functions the rewriting
  calls are written out here as the library has them (CPython 3.11), for a \<open>str\<close> and the
  default arguments, which is how the program calls them.

  \<open>unquote\<close> replaces \<open>%xx\<close> by the byte with that hexadecimal code, in every run of ASCII
  characters, and reads the bytes of the run as UTF-8, putting U+FFFD for what is not
  UTF-8 (\<open>errors='replace'\<close>); a \<open>%\<close> that no two hexadecimal digits follow stays.
  \<open>unquote_plus\<close> first turns every \<open>+\<close> into a space.
\<close>

definition hexdig :: "nat \<Rightarrow> nat option" where
  "hexdig c =
     (if 48 \<le> c \<and> c \<le> 57 then Some (c - 48)
      else if 65 \<le> c \<and> c \<le> 70 then Some (c - 55)
      else if 97 \<le> c \<and> c \<le> 102 then Some (c - 87)
      else None)"

fun unquote_to_bytes :: "pystr \<Rightarrow> nat list" where
  "unquote_to_bytes [] = []"
| "unquote_to_bytes (c # cs) =
     (if c = 37 then
        (case cs of
           h # l # rest \<Rightarrow>
             (case (hexdig h, hexdig l) of
                (Some a, Some b) \<Rightarrow> (16 * a + b) # unquote_to_bytes rest
              | _ \<Rightarrow> c # unquote_to_bytes cs)
         | _ \<Rightarrow> c # unquote_to_bytes cs)
      else c # unquote_to_bytes cs)"

definition continuation :: "nat \<Rightarrow> bool" where
  "continuation b = (128 \<le> b \<and> b \<le> 191)"

fun decode_utf8 :: "nat list \<Rightarrow> pystr" where
  "decode_utf8 [] = []"
| "decode_utf8 (b # bs) =
     (if b < 128 then b # decode_utf8 bs
      else if 194 \<le> b \<and> b \<le> 223 then
        (case bs of
           [] \<Rightarrow> [65533]
         | c1 # r1 \<Rightarrow>
             if continuation c1 then ((b - 192) * 64 + (c1 - 128)) # decode_utf8 r1
             else 65533 # decode_utf8 bs)
      else if 224 \<le> b \<and> b \<le> 239 then
        (case bs of
           [] \<Rightarrow> [65533]
         | c1 # r1 \<Rightarrow>
             if (if b = 224 then 160 else 128) \<le> c1 \<and> c1 \<le> (if b = 237 then 159 else 191) then
               (case r1 of
                  [] \<Rightarrow> [65533]
                | c2 # r2 \<Rightarrow>
                    if continuation c2
                    then ((b - 224) * 4096 + (c1 - 128) * 64 + (c2 - 128)) # decode_utf8 r2
                    else 65533 # decode_utf8 r1)
             else 65533 # decode_utf8 bs)
      else if 240 \<le> b \<and> b \<le> 244 then
        (case bs of
           [] \<Rightarrow> [65533]
         | c1 # r1 \<Rightarrow>
             if (if b = 240 then 144 else 128) \<le> c1 \<and> c1 \<le> (if b = 244 then 143 else 191) then
               (case r1 of
                  [] \<Rightarrow> [65533]
                | c2 # r2 \<Rightarrow>
                    if continuation c2 then
                      (case r2 of
                         [] \<Rightarrow> [65533]
                       | c3 # r3 \<Rightarrow>
                           if continuation c3
                           then ((b - 240) * 262144 + (c1 - 128) * 4096 + (c2 - 128) * 64
                                   + (c3 - 128)) # decode_utf8 r3
                           else 65533 # decode_utf8 r2)
                    else 65533 # decode_utf8 r1)
             else 65533 # decode_utf8 bs)
      else 65533 # decode_utf8 bs)"

function unquote :: "pystr \<Rightarrow> pystr" where
  "unquote [] = []"
| "unquote (c # cs) =
     (if c < 128 then
        decode_utf8 (unquote_to_bytes (takeWhile (\<lambda>x. x < 128) (c # cs)))
          @ unquote (dropWhile (\<lambda>x. x < 128) cs)
      else c # unquote cs)"
  by pat_completeness auto
termination
  by (relation "measure length") (auto intro: le_imp_less_Suc length_dropWhile_le)

definition unquote_plus :: "pystr \<Rightarrow> pystr" where
  "unquote_plus s = unquote (map (\<lambda>c. if c = 43 then 32 else c) s)"

text \<open>
  \<open>qs.split('&')\<close>, and the two outer parts of \<open>name_value.partition('=')\<close>: what stands
  before the first \<open>=\<close> and what stands after it (nothing, when there is no \<open>=\<close>).
\<close>

fun str_split :: "nat \<Rightarrow> pystr \<Rightarrow> pystr list" where
  "str_split sep [] = [[]]"
| "str_split sep (c # cs) =
     (if c = sep then [] # str_split sep cs
      else (case str_split sep cs of
              [] \<Rightarrow> [[c]]
            | f # fs \<Rightarrow> (c # f) # fs))"

definition field_name :: "pystr \<Rightarrow> pystr" where
  "field_name name_value = takeWhile (\<lambda>c. c \<noteq> 61) name_value"

definition field_value :: "pystr \<Rightarrow> pystr" where
  "field_value name_value = drop 1 (dropWhile (\<lambda>c. c \<noteq> 61) name_value)"

text \<open>
  \<open>parse_qsl\<close> with \<open>keep_blank_values=False\<close> and \<open>strict_parsing=False\<close>: a field whose
  value is empty is left out, and nothing raises. \<open>parse_qs\<close> collects the values of each
  name, in their order, in a \<open>dict\<close>.
\<close>

definition parse_qsl :: "pystr \<Rightarrow> (pystr \<times> pystr) list" where
  "parse_qsl qs =
     concat (map (\<lambda>name_value.
         if field_value name_value \<noteq> []
         then [(unquote_plus (field_name name_value), unquote_plus (field_value name_value))]
         else [])
       (str_split 38 qs))"

definition add_pair ::
  "(pystr \<times> pystr list) list \<Rightarrow> pystr \<times> pystr \<Rightarrow> (pystr \<times> pystr list) list" where
  "add_pair parsed_result pair =
     (case map_of parsed_result (fst pair) of
        None \<Rightarrow> parsed_result @ [(fst pair, [snd pair])]
      | Some vals \<Rightarrow>
          map (\<lambda>(k, vs). if k = fst pair then (k, vs @ [snd pair]) else (k, vs)) parsed_result)"

definition parse_qs :: "pystr \<Rightarrow> (pystr \<times> pystr list) list" where
  "parse_qs qs = foldl add_pair [] (parse_qsl qs)"

definition redirector_prefix :: pystr where
  "redirector_prefix = lit ''https://www.google.com/url?''"

text \<open>
  \<open>urlparse(url).query\<close>, as \<open>urlsplit\<close> finds it: white space and control characters at
  the start are dropped, tabs, line feeds and carriage returns are removed, a scheme is
  cut off, the authority is what follows \<open>//\<close> up to the first \<open>/\<close>, \<open>?\<close> or \<open>#\<close>, the
  fragment starts at the first \<open>#\<close> and the query follows the first \<open>?\<close> before it.
  \<open>ValueError\<close> is raised for an authority with one kind of bracket only, and may be
  raised by the two checks.
\<close>

definition scheme_char :: "nat \<Rightarrow> bool" where
  "scheme_char c =
     ((97 \<le> c \<and> c \<le> 122) \<or> (65 \<le> c \<and> c \<le> 90) \<or> (48 \<le> c \<and> c \<le> 57)
      \<or> c = 43 \<or> c = 45 \<or> c = 46)"

definition ascii_alpha :: "nat \<Rightarrow> bool" where
  "ascii_alpha c = ((97 \<le> c \<and> c \<le> 122) \<or> (65 \<le> c \<and> c \<le> 90))"

definition strip_scheme :: "pystr \<Rightarrow> pystr" where
  "strip_scheme url =
     (let i = length (takeWhile (\<lambda>c. c \<noteq> 58) url) in
      if 58 \<in> set url \<and> 0 < i \<and> ascii_alpha (hd url) \<and> list_all scheme_char (take i url)
      then drop (Suc i) url else url)"

definition netloc_end :: "nat \<Rightarrow> bool" where
  "netloc_end c = (c = 47 \<or> c = 63 \<or> c = 35)"

definition urlparse_query :: "'w env \<Rightarrow> pystr \<Rightarrow> exn + pystr" where
  "urlparse_query env url0 =
     (let url = strip_scheme (filter (\<lambda>c. c \<notin> {9, 10, 13}) (dropWhile (\<lambda>c. c \<le> 32) url0));
          netloc = (if take 2 url = [47, 47]
                    then takeWhile (\<lambda>c. \<not> netloc_end c) (drop 2 url) else []);
          rest = (if take 2 url = [47, 47]
                  then dropWhile (\<lambda>c. \<not> netloc_end c) (drop 2 url) else url);
          query = drop 1 (dropWhile (\<lambda>c. c \<noteq> 63) (takeWhile (\<lambda>c. c \<noteq> 35) rest))
      in if (91 \<in> set netloc) \<noteq> (93 \<in> set netloc)
         then Inl \<lparr>kind = ValueError, message = lit ''Invalid IPv6 URL''\<rparr>
         else
           (case (if 91 \<in> set netloc
                  then check_bracketed_host env
                         (takeWhile (\<lambda>c. c \<noteq> 93) (drop 1 (dropWhile (\<lambda>c. c \<noteq> 91) netloc)))
                  else Inr ()) of
              Inl e \<Rightarrow> Inl e
            | Inr _ \<Rightarrow>
                (case (if list_all (\<lambda>c. c < 128) netloc then Inr () else checknetloc env netloc) of
                   Inl e \<Rightarrow> Inl e
                 | Inr _ \<Rightarrow> Inr query)))"

text \<open>
  Lines 175 to 186 of \<open>process_link\<close>: the rewriting of a redirector address.
  \<open>query_params.get("url")\<close> is \<open>None\<close> or a list; \<open>if redirected_url:\<close> rejects
  \<open>None\<close> and the empty list.
\<close>

definition resolve_link :: "'w env \<Rightarrow> pystr \<Rightarrow> exn + pystr" where
  "resolve_link env url =
     (if prefix redirector_prefix url then
        (case urlparse_query env url of
           Inl e \<Rightarrow> Inl e
         | Inr query \<Rightarrow>
             (case map_of (parse_qs query) (lit ''url'') of
                None \<Rightarrow> Inr url
              | Some [] \<Rightarrow> Inr url
              | Some (v # vs) \<Rightarrow> Inr v))
      else Inr url)"


text \<open>\<open>response.raise_for_status()\<close> raises \<open>HTTPError\<close> for a status from 400 to 599.\<close>

definition raise_for_status :: "response \<Rightarrow> exn + unit" where
  "raise_for_status r =
     (if 400 \<le> status_code r \<and> status_code r < 600
      then Inl \<lparr>kind = HTTPError, message = lit ''status''\<rparr> else Inr ())"

definition process_link ::
  "'w env \<Rightarrow> event \<Rightarrow> pystr \<Rightarrow> 'w st \<Rightarrow> (exn + unit) \<times> 'w st" where
  "process_link env ev u s =
     (case resolve_link env u of
        Inl e \<Rightarrow> (Inl e, s)
      | Inr url \<Rightarrow>
          (case requests_get env url (outside s) of
             (Inl e, w) \<Rightarrow> (Inl e, s\<lparr>outside := w\<rparr>)
           | (Inr r, w) \<Rightarrow>
               (case raise_for_status r of
                  Inl e \<Rightarrow> (Inl e, s\<lparr>outside := w\<rparr>)
                | Inr _ \<Rightarrow>
                    summerize_text env ev (fst (extract_content env (body_text r)))
                      (s\<lparr>outside := w\<rparr>))))"

section \<open>The cache of processed events\<close>

text \<open>
  Modelled from the spec: \<open>cachetools.TTLCache\<close> is a library class, not part of the
  source. It is the bounded, time-expiring set of the specification: an entry expires
  \<open>ttl\<close> after it was stored; storing a new key first drops the expired entries at the
  old end and then, when the cache is full, the oldest entry. \<open>key in cache\<close> holds for
  a stored key that has not expired. The timer's reading \<open>now\<close> is an argument.
\<close>

definition maxsize :: nat where
  "maxsize = 100"

definition ttl :: rat where
  "ttl = 60"

definition cache_contains :: "ttl_links \<Rightarrow> pystr \<Rightarrow> rat \<Rightarrow> bool" where
  "cache_contains links k now =
     (case map_of links k of None \<Rightarrow> False | Some expires \<Rightarrow> now < expires)"

definition expire :: "ttl_links \<Rightarrow> rat \<Rightarrow> ttl_links" where
  "expire links now = dropWhile (\<lambda>(k, expires). \<not> now < expires) links"

definition cache_setitem :: "ttl_links \<Rightarrow> pystr \<Rightarrow> rat \<Rightarrow> ttl_links" where
  "cache_setitem links k now =
     (let live = expire links now;
          room = (if map_of live k = None \<and> maxsize < length live + 1
                  then drop (length live + 1 - maxsize) live else live)
      in filter (\<lambda>(k', expires). k' \<noteq> k) room @ [(k, now + ttl)])"

section \<open>The event handler\<close>

text \<open>
  The three nested \<open>for\<close> loops of \<open>handle_message_events\<close> visit the items in the
  order of \<open>concat (concat blocks)\<close>. \<open>await process_link(...)\<close> stands in no \<open>try\<close>:
  an exception leaves the loops and the handler.
\<close>

fun process_items ::
  "'w env \<Rightarrow> event \<Rightarrow> (pystr option \<times> pystr option) list \<Rightarrow> 'w st
     \<Rightarrow> (exn + unit) \<times> 'w st" where
  "process_items env ev [] s = (Inr (), s)"
| "process_items env ev ((item_type, item_url) # items) s =
     (if item_type = Some (lit ''link'') then
        (case item_url of
           None \<Rightarrow> (Inl \<lparr>kind = KeyError, message = lit ''url''\<rparr>, s)
         | Some u \<Rightarrow>
             (case process_link env ev u s of
                (Inl e, s1) \<Rightarrow> (Inl e, s1)
              | (Inr _, s1) \<Rightarrow> process_items env ev items s1))
      else process_items env ev items s)"

definition message_id :: "event \<Rightarrow> pystr" where
  "message_id ev = ev_channel ev @ lit ''.'' @ event_ts ev"

text \<open>
  \<open>handle_message_events\<close>, called when the timer reads \<open>now\<close>. Nothing is awaited
  between the test \<open>message_id in processed_ids\<close> and the assignment.
\<close>

definition handle_message_events ::
  "'w env \<Rightarrow> event \<Rightarrow> rat \<Rightarrow> 'w st \<Rightarrow> (exn + unit) \<times> 'w st" where
  "handle_message_events env ev now s =
     (let s0 = s\<lparr>trace := trace s @ [Ack]\<rparr> in
      if previous_message ev \<noteq> None then (Inr (), s0)
      else if cache_contains (processed_ids s0) (message_id ev) now then (Inr (), s0)
      else process_items env ev (concat (concat (blocks ev)))
             (s0\<lparr>processed_ids := cache_setitem (processed_ids s0) (message_id ev) now\<rparr>))"

section \<open>Inputs for the examples\<close>

text \<open>
  The examples run the program against services written out here. The outside
  world is the list of the posts Slack was asked to make, in order.
  \<open>example_loads\<close> is \<open>json.loads\<close> on the texts of the examples: three JSON
  documents; the other texts used (the truncated \<open>reply_cut\<close> and \<open>oops\<close>) are not JSON,
  and the message of the exception is not modelled.
\<close>

definition reply_en :: pystr where
  \<open>reply_en = lit ''{"summary": "S", "language": "en", "body_translated": "T"}''\<close>

definition reply_ja :: pystr where
  \<open>reply_ja = lit ''{"summary": "S", "language": "ja"}''\<close>

definition reply_cut :: pystr where
  \<open>reply_cut = lit ''{"summary": "S"''\<close>

definition example_loads :: "pystr \<Rightarrow> exn + json" where
  "example_loads t =
     (if t = reply_en then
        Inr (JObject [(lit ''summary'', JString (lit ''S'')),
                      (lit ''language'', JString (lit ''en'')),
                      (lit ''body_translated'', JString (lit ''T''))])
      else if t = reply_ja then
        Inr (JObject [(lit ''summary'', JString (lit ''S'')),
                      (lit ''language'', JString (lit ''ja''))])
      else if t = lit ''[1]'' then Inr (JArray [JNumber 1])
      else Inl \<lparr>kind = JSONDecodeError, message = lit ''not JSON''\<rparr>)"

definition slack_accepts :: "post \<Rightarrow> (post list, unit) operation" where
  "slack_accepts p w = (Inr (), w @ [p])"

definition slack_rejects :: "post \<Rightarrow> (post list, unit) operation" where
  "slack_rejects p w =
     (Inl \<lparr>kind = SlackApiError, message = lit ''ratelimited''\<rparr>, w @ [p])"

text \<open>The page at \<open>https://down.example/\<close> cannot be fetched; every other page is
  served, its text being its address.\<close>

definition example_get :: "pystr \<Rightarrow> (post list, response) operation" where
  "example_get u w =
     (if u = lit ''https://down.example/''
      then (Inl \<lparr>kind = RequestException, message = lit ''connection refused''\<rparr>, w)
      else (Inr \<lparr>status_code = 200, body_text = u\<rparr>, w))"

definition example_extract :: "pystr \<Rightarrow> pystr \<times> pystr" where
  "example_extract t = (t, lit ''title'')"

definition example_repr :: "json \<Rightarrow> pystr" where
  "example_repr v = lit ''None''"

definition answering :: "message \<Rightarrow> pystr \<Rightarrow> (post list, message list) operation" where
  "answering m page w = (Inr [m], w)"

definition example_env ::
  "message \<Rightarrow> (post \<Rightarrow> (post list, unit) operation) \<Rightarrow> post list env" where
  "example_env m slack =
     \<lparr>chat_completions_create = answering m,
      chat_postMessage = slack,
      requests_get = example_get,
      extract_content = example_extract,
      json_loads = example_loads,
      py_repr = example_repr,
      check_bracketed_host = (\<lambda>host. Inr ()),
      checknetloc = (\<lambda>netloc. Inr ())\<rparr>"

definition calling :: "pystr \<Rightarrow> pystr \<Rightarrow> message" where
  "calling f a = \<lparr>content = None, function_call = Some \<lparr>name = f, arguments = a\<rparr>\<rparr>"

definition saying :: "pystr \<Rightarrow> message" where
  "saying t = \<lparr>content = Some t, function_call = None\<rparr>"

definition link_item :: "pystr \<Rightarrow> pystr option \<times> pystr option" where
  "link_item u = (Some (lit ''link''), Some u)"

definition example_event :: "pystr \<Rightarrow> (pystr option \<times> pystr option) list \<Rightarrow> event" where
  "example_event c items =
     \<lparr>ev_channel = c, event_ts = lit ''1700000000.000100'', ts = lit ''1700000000.000100'',
      previous_message = None, blocks = [[items]]\<rparr>"

definition summary_S :: pystr where
  "summary_S = newline @ summary_heading @ newline @ lit ''S'' @ newline"

definition translation_T :: pystr where
  "translation_T = newline @ translation_heading @ newline @ lit ''T'' @ newline"

definition down_url :: pystr where
  "down_url = lit ''https://down.example/''"

definition up_url :: pystr where
  "up_url = lit ''https://up.example/''"

definition answer_en :: message where
  "answer_en = calling (lit ''reply_processed_text'') reply_en"

text \<open>
  A burst of events without links, each from a channel of its own (\<open>A0\<close>, \<open>A1\<close>, ...,
  \<open>J9\<close> for the first hundred), all arriving when the timer reads \<open>1 / 2\<close>.
\<close>

definition burst_event :: "nat \<Rightarrow> event" where
  "burst_event n = example_event [65 + n div 10, 48 + n mod 10] []"

fun burst :: "nat \<Rightarrow> (event \<times> rat) list" where
  "burst 0 = []"
| "burst (Suc n) = burst n @ [(burst_event n, 1 / 2)]"

section \<open>Handling a sequence of events\<close>

text \<open>
  \<open>passes_gate\<close> holds when a call of \<open>handle_message_events\<close> gets past both \<open>return\<close>s
  of lines 208 to 214, that is, when it marks the key and enters the loops.
  \<open>run_handlers\<close> handles the calls of a list one after the other; an exception of one
  call ends that call only.
\<close>

definition passes_gate :: "event \<Rightarrow> rat \<Rightarrow> 'w st \<Rightarrow> bool" where
  "passes_gate ev now s =
     (previous_message ev = None \<and> \<not> cache_contains (processed_ids s) (message_id ev) now)"

fun run_handlers :: "'w env \<Rightarrow> (event \<times> rat) list \<Rightarrow> 'w st \<Rightarrow> 'w st" where
  "run_handlers env [] s = s"
| "run_handlers env ((ev, now) # calls) s =
     run_handlers env calls (snd (handle_message_events env ev now s))"

text \<open>
  \<open>handle_message_events\<close> is a coroutine, and every call of it is a task of one
  \<open>asyncio\<close> loop: a task runs until it awaits, and other tasks may run before it goes
  on. A call awaits at line 203 and, for each link, inside \<open>process_link\<close>; nothing is
  awaited from line 205 to line 215. A task is a call at one of these points: not yet
  acknowledged; acknowledged, before line 205; in the loops, with the items still to
  visit; or finished, with what it returned or raised. \<open>step\<close> runs a task up to its next
  point, the timer reading \<open>now\<close>: the acknowledgement, then lines 205 to 215, then one
  item of the loops at a time.

  An item is run in one step although \<open>process_link\<close> awaits inside it. Processing neither
  reads nor writes \<open>processed_ids\<close>, so lines 205 to 215 of another call that run
  somewhere inside it give the state they give before it or after it.
\<close>

datatype task =
    Start event
  | Acked event
  | Looping event "(pystr option \<times> pystr option) list"
  | Returned "exn + unit"

fun step :: "'w env \<Rightarrow> rat \<Rightarrow> task \<Rightarrow> 'w st \<Rightarrow> task \<times> 'w st" where
  "step env now (Start ev) s = (Acked ev, s\<lparr>trace := trace s @ [Ack]\<rparr>)"
| "step env now (Acked ev) s =
     (if previous_message ev \<noteq> None then (Returned (Inr ()), s)
      else if cache_contains (processed_ids s) (message_id ev) now then (Returned (Inr ()), s)
      else (Looping ev (concat (concat (blocks ev))),
            s\<lparr>processed_ids := cache_setitem (processed_ids s) (message_id ev) now\<rparr>))"
| "step env now (Looping ev []) s = (Returned (Inr ()), s)"
| "step env now (Looping ev (item # items)) s =
     (case process_items env ev [item] s of
        (Inl e, s') \<Rightarrow> (Returned (Inl e), s')
      | (Inr u, s') \<Rightarrow> (Looping ev items, s'))"
| "step env now (Returned r) s = (Returned r, s)"

text \<open>
  The tasks of the loop and the state they share. A call arrives and becomes a new
  task, or the task at some index runs its next step; \<open>schedule\<close> performs such actions
  one after the other, in any order one likes. \<open>gate_runs\<close> counts the steps of a schedule
  that are lines 205 to 215 of some call, and \<open>run_times\<close> lists the timer readings of its
  steps.
\<close>

datatype action =
    Arrive event
  | Run nat rat

fun perform :: "'w env \<Rightarrow> action \<Rightarrow> task list \<times> 'w st \<Rightarrow> task list \<times> 'w st" where
  "perform env (Arrive ev) (tasks, s) = (tasks @ [Start ev], s)"
| "perform env (Run k now) (tasks, s) =
     (if k < length tasks
      then (case step env now (tasks ! k) s of (t, s') \<Rightarrow> (tasks[k := t], s'))
      else (tasks, s))"

fun schedule :: "'w env \<Rightarrow> action list \<Rightarrow> task list \<times> 'w st \<Rightarrow> task list \<times> 'w st" where
  "schedule env [] p = p"
| "schedule env (a # acts) p = schedule env acts (perform env a p)"

fun at_gate :: "action \<Rightarrow> task list \<Rightarrow> bool" where
  "at_gate (Arrive ev) tasks = False"
| "at_gate (Run k now) tasks =
     (k < length tasks \<and> (case tasks ! k of Acked ev \<Rightarrow> True | _ \<Rightarrow> False))"

fun gate_runs :: "'w env \<Rightarrow> action list \<Rightarrow> task list \<times> 'w st \<Rightarrow> nat" where
  "gate_runs env [] p = 0"
| "gate_runs env (a # acts) p =
     (if at_gate a (fst p) then 1 else 0) + gate_runs env acts (perform env a p)"

fun run_times :: "action list \<Rightarrow> rat list" where
  "run_times [] = []"
| "run_times (Arrive ev # acts) = run_times acts"
| "run_times (Run k now # acts) = now # run_times acts"

text \<open>
  A schedule for the examples: another call arrives, is acknowledged and passes lines 205
  to 215; then the event of the first call arrives once more and is acknowledged.
\<close>

definition in_flight :: "action list" where
  "in_flight =
     [Arrive (burst_event 0), Run 1 (1 / 2), Run 1 (1 / 2),
      Arrive (example_event (lit ''Z0'') [link_item up_url]), Run 2 (3 / 4)]"

section \<open>Properties of the retry decorator\<close>

lemma sleeps_of_append: "sleeps_of (xs @ ys) = sleeps_of xs @ sleeps_of ys"
  by (induction xs rule: sleeps_of.induct) simp_all

lemma calls_of_append: "calls_of (xs @ ys) = calls_of xs + calls_of ys"
  by (simp add: calls_of_def)

lemma world_after_Suc: "world_after func (Suc k) w = world_after func k (snd (func w))"
  using funpow_swap1 [of "\<lambda>w. snd (func w)" k w] by (simp add: world_after_def)

lemma geometric_Cons:
  "wt # map (\<lambda>k. (wt * bf) * bf ^ k) [0..<m] = map (\<lambda>k. wt * bf ^ k) [0..<Suc m]"
  for wt bf :: rat
  by (induction m) (simp_all add: mult.assoc)

lemma retry_loop_exhausts:
  assumes fails: "always_fails exceptions func"
  shows "i < total_tries \<Longrightarrow>
    \<exists>e tr. retry_loop exceptions total_tries backoff_factor func i wait_time s =
              (Inl e, s\<lparr>outside := world_after func (total_tries - i) (outside s),
                        trace := trace s @ tr\<rparr>)
       \<and> fst (func (world_after func (total_tries - i - 1) (outside s))) = Inl e
       \<and> calls_of tr = total_tries - i
       \<and> sleeps_of tr = map (\<lambda>k. wait_time * backoff_factor ^ k) [0..<total_tries - i - 1]"
proof (induction "total_tries - i" arbitrary: i wait_time s)
  case 0
  then show ?case by simp
next
  case (Suc n)
  from fails obtain e w' where f: "func (outside s) = (Inl e, w')" and k: "isinstance e exceptions"
    unfolding always_fails_def by blast
  show ?case
  proof (cases "i = total_tries - 1")
    case True
    with Suc.prems have d: "total_tries - i = Suc 0" by simp
    have "retry_loop exceptions total_tries backoff_factor func i wait_time s =
            (Inl e, s\<lparr>outside := w', trace := trace s @ [Call, LogError e wait_time]\<rparr>)"
      apply (subst retry_loop.simps)
      using Suc.prems True f k by simp
    then show ?thesis
      using f d by (intro exI [of _ e] exI [of _ "[Call, LogError e wait_time]"])
        (simp add: world_after_def calls_of_def)
  next
    case False
    let ?s = "s\<lparr>outside := w',
                 trace := trace s @ [Call, LogError e wait_time, Sleep wait_time]\<rparr>"
    from False Suc.prems have lt: "Suc i < total_tries" by simp
    from Suc.hyps(2) have n: "n = total_tries - Suc i" by simp
    from Suc.hyps(1) [OF n lt, of "wait_time * backoff_factor" ?s]
    obtain e' tr where
      r: "retry_loop exceptions total_tries backoff_factor func (Suc i)
            (wait_time * backoff_factor) ?s =
          (Inl e', ?s\<lparr>outside := world_after func (total_tries - Suc i) (outside ?s),
                      trace := trace ?s @ tr\<rparr>)"
      and l: "fst (func (world_after func (total_tries - Suc i - 1) (outside ?s))) = Inl e'"
      and c: "calls_of tr = total_tries - Suc i"
      and sl: "sleeps_of tr =
          map (\<lambda>k. (wait_time * backoff_factor) * backoff_factor ^ k)
            [0..<total_tries - Suc i - 1]"
      by blast
    have w: "world_after func (total_tries - i) (outside s) =
             world_after func (total_tries - Suc i) w'"
    proof -
      from lt have "total_tries - i = Suc (total_tries - Suc i)" by simp
      then show ?thesis using f by (simp add: world_after_Suc)
    qed
    have w1: "world_after func (total_tries - i - 1) (outside s) =
              world_after func (total_tries - Suc i - 1) w'"
    proof -
      from lt False have "total_tries - i - 1 = Suc (total_tries - Suc i - 1)" by simp
      then show ?thesis using f by (simp add: world_after_Suc)
    qed
    have idx: "total_tries - i - 1 = Suc (total_tries - Suc i - 1)"
      using lt False by simp
    let ?tr = "[Call, LogError e wait_time, Sleep wait_time] @ tr"
    have "retry_loop exceptions total_tries backoff_factor func i wait_time s =
            (Inl e', s\<lparr>outside := world_after func (total_tries - i) (outside s),
                       trace := trace s @ ?tr\<rparr>)"
      apply (subst retry_loop.simps)
      using Suc.prems False f k r w by simp
    moreover have "fst (func (world_after func (total_tries - i - 1) (outside s))) = Inl e'"
      using l w1 by simp
    moreover have "calls_of ?tr = total_tries - i"
      using c lt by (simp add: calls_of_def)
    moreover have "sleeps_of ?tr =
        map (\<lambda>k. wait_time * backoff_factor ^ k) [0..<total_tries - i - 1]"
      using sl geometric_Cons [of wait_time backoff_factor "total_tries - Suc i - 1"]
      by (simp only: idx sleeps_of_append append_Cons append_Nil sleeps_of.simps)
    ultimately show ?thesis by blast
  qed
qed

lemma geometric_sorted:
  fixes wt bf :: rat
  assumes "0 \<le> wt" "1 \<le> bf"
  shows "sorted (map (\<lambda>k. wt * bf ^ k) [0..<n])"
proof -
  have "\<And>i j. i \<le> j \<Longrightarrow> wt * bf ^ i \<le> wt * bf ^ j"
    using assms by (simp add: mult_left_mono power_increasing)
  then show ?thesis
    by (simp add: sorted_iff_nth_mono)
qed

text \<open>
  Claim C1. With \<open>total_tries = N\<close>, \<open>N \<ge> 1\<close>, and an operation that fails on every
  call with an exception that \<open>except exceptions\<close> catches (an instance of a class listed
  in \<open>exceptions\<close>, and so one of that very class), the wrapper calls the
  operation exactly \<open>N\<close> times (the world is the one after \<open>N\<close> calls, and the trace
  holds \<open>N\<close> calls), then raises the exception of the last call as it is. The sleeps
  between the calls are \<open>initial_wait * backoff_factor ^ k\<close> for \<open>k = 0, ..., N - 2\<close>;
  for a waiting time that is not negative and a factor of at least 1 they never decrease.
\<close>

theorem retry_exhausts_total_tries:
  assumes "1 \<le> total_tries"
    and "always_fails exceptions func"
    and "0 \<le> initial_wait"
    and "1 \<le> backoff_factor"
  shows "\<exists>e tr.
      retry exceptions total_tries initial_wait backoff_factor func s =
        (Inl e, s\<lparr>outside := world_after func total_tries (outside s),
                  trace := trace s @ tr\<rparr>)
    \<and> fst (func (world_after func (total_tries - 1) (outside s))) = Inl e
    \<and> calls_of tr = total_tries
    \<and> sleeps_of tr = map (\<lambda>k. initial_wait * backoff_factor ^ k) [0..<total_tries - 1]
    \<and> sorted (sleeps_of tr)"
proof -
  from assms(1) have "0 < total_tries" by simp
  from retry_loop_exhausts [OF assms(2) this, of backoff_factor initial_wait s]
  obtain e tr where
    r: "retry_loop exceptions total_tries backoff_factor func 0 initial_wait s =
          (Inl e, s\<lparr>outside := world_after func (total_tries - 0) (outside s),
                    trace := trace s @ tr\<rparr>)"
    and l: "fst (func (world_after func (total_tries - 0 - 1) (outside s))) = Inl e"
    and c: "calls_of tr = total_tries - 0"
    and sl: "sleeps_of tr =
        map (\<lambda>k. initial_wait * backoff_factor ^ k) [0..<total_tries - 0 - 1]"
    by blast
  have "sorted (sleeps_of tr)"
    unfolding sl using assms(3,4) by (rule geometric_sorted)
  with r l c sl show ?thesis
    by (intro exI [of _ e] exI [of _ tr]) (simp add: retry_def)
qed

theorem retry_exhausts_total_tries_witness:
  "always_fails [OpenAIError] failing_op
   \<and> (\<exists>e tr. retry [OpenAIError] 3 1 2 failing_op (initial_state 0) =
          (Inl e, \<lparr>outside = 3, trace = tr, processed_ids = []\<rparr>)
        \<and> e = \<lparr>kind = OpenAIError, message = lit ''overloaded''\<rparr>
        \<and> calls_of tr = 3 \<and> sleeps_of tr = [1, 2])"
proof -
  have f: "always_fails [OpenAIError] failing_op"
    by (simp add: always_fails_def failing_op_def isinstance_def issubclass_def)
  have w: "\<And>k w. world_after failing_op k w = k + w"
    by (induct_tac k) (simp_all add: world_after_def failing_op_def)
  have u: "[0..<2] = [0, Suc 0]"
    by (simp add: numeral_2_eq_2)
  from retry_exhausts_total_tries [of 3 "[OpenAIError]" failing_op 1 2 "initial_state 0", OF _ f]
  show ?thesis
    using f by (simp add: w u initial_state_def failing_op_def) blast
qed

text \<open>
  Claim C7, as the code has it. \<open>except exceptions\<close> catches the instances of the listed
  classes, those of their subclasses included. When the operation fails with an exception
  that is an instance of none of them, the wrapper has called it once, raises that
  exception at once, and has neither logged nor slept: the trace grows by the single call.
\<close>

theorem retry_other_exception_propagates:
  assumes "1 \<le> total_tries"
    and "func (outside s) = (Inl e, w)"
    and "\<not> isinstance e exceptions"
  shows "retry exceptions total_tries initial_wait backoff_factor func s =
           (Inl e, s\<lparr>outside := w, trace := trace s @ [Call]\<rparr>)
    \<and> calls_of [Call] = 1 \<and> sleeps_of [Call] = []"
  unfolding retry_def
  apply (subst retry_loop.simps)
  using assms by (simp add: calls_of_def)

theorem retry_other_exception_propagates_witness:
  "retry [SlackApiError] 3 1 2 rejecting_op (initial_state 0) =
     (Inl \<lparr>kind = KeyError, message = lit ''channel''\<rparr>,
      \<lparr>outside = 1, trace = [Call], processed_ids = []\<rparr>)"
  using retry_other_exception_propagates [of 3 rejecting_op "initial_state 0"
      "\<lparr>kind = KeyError, message = lit ''channel''\<rparr>" 1 "[SlackApiError]" 1 2]
  by (simp add: rejecting_op_def initial_state_def isinstance_def issubclass_def)

text \<open>
  Claim C7 as stated fails: the policy of \<open>chat_completion_create\<close> lists \<open>OpenAIError\<close>
  alone, the operation fails with a \<open>RateLimitError\<close>, whose class is not in the list, and
  it is called three times, with sleeps of 1 and 2 seconds, before the error is raised.
\<close>

theorem subclass_error_is_retried:
  "kind \<lparr>kind = RateLimitError, message = lit ''rate limit''\<rparr> \<notin> set [OpenAIError]
   \<and> retry [OpenAIError] 3 1 2 rate_limited_op (initial_state 0) =
       (Inl \<lparr>kind = RateLimitError, message = lit ''rate limit''\<rparr>,
        \<lparr>outside = 3,
         trace = [Call, LogError \<lparr>kind = RateLimitError, message = lit ''rate limit''\<rparr> 1, Sleep 1,
                  Call, LogError \<lparr>kind = RateLimitError, message = lit ''rate limit''\<rparr> 2, Sleep 2,
                  Call, LogError \<lparr>kind = RateLimitError, message = lit ''rate limit''\<rparr> 4],
         processed_ids = []\<rparr>)
   \<and> calls_of [Call, LogError \<lparr>kind = RateLimitError, message = lit ''rate limit''\<rparr> 1, Sleep 1,
                Call, LogError \<lparr>kind = RateLimitError, message = lit ''rate limit''\<rparr> 2, Sleep 2,
                Call, LogError \<lparr>kind = RateLimitError, message = lit ''rate limit''\<rparr> 4] = 3"
  by (simp add: retry_def retry_loop.simps rate_limited_op_def initial_state_def isinstance_def
      issubclass_def RateLimitError_def calls_of_def)

section \<open>Properties of the normalisation\<close>

lemma strip_decomposes:
  "\<exists>lead trail. t = lead @ strip t @ trail \<and> list_all isspace lead \<and> list_all isspace trail"
proof -
  let ?u = "dropWhile isspace t"
  let ?v = "rev ?u"
  have a: "t = takeWhile isspace t @ ?u" by simp
  have "rev (dropWhile isspace ?v) @ rev (takeWhile isspace ?v) =
        rev (takeWhile isspace ?v @ dropWhile isspace ?v)"
    by (simp only: rev_append)
  also have "\<dots> = rev ?v" by (simp only: takeWhile_dropWhile_id)
  also have "\<dots> = ?u" by simp
  finally have b: "?u = strip t @ rev (takeWhile isspace ?v)"
    by (simp add: strip_def)
  have c: "list_all isspace (takeWhile isspace t)"
    by (simp add: list_all_iff) (meson set_takeWhileD)
  have d: "list_all isspace (rev (takeWhile isspace ?v))"
    by (simp add: list_all_iff) (meson set_takeWhileD)
  from a b have "t = takeWhile isspace t @ strip t @ rev (takeWhile isspace ?v)"
    by metis
  with c d show ?thesis by blast
qed

lemma format_reply_dict:
  "format_reply repr (JObject args) =
     Inr (newline @ summary_heading @ newline
            @ py_format repr (dict_get args (lit ''summary'') (JString (lit ''???''))) @ newline,
          if dict_get args (lit ''language'') JNull \<noteq> JString (lit ''ja'')
               \<and> dict_has args (lit ''body_translated'')
          then Some (newline @ translation_heading @ newline
                 @ py_format repr (dict_get args (lit ''body_translated'') (JString (lit ''???'')))
                 @ newline)
          else None)"
  by (simp add: Let_def)

lemma function_call_saying: "function_call (saying t) = None"
  by (simp add: saying_def)

lemma function_call_calling:
  "function_call (calling f a) = Some \<lparr>name = f, arguments = a\<rparr>"
  by (simp add: calling_def)

lemma reply_texts_differ:
  "reply_ja \<noteq> reply_en" "reply_cut \<noteq> reply_en" "reply_cut \<noteq> reply_ja"
  "reply_cut \<noteq> lit ''[1]''" "lit ''oops'' \<noteq> reply_en" "lit ''oops'' \<noteq> reply_ja"
  "lit ''oops'' \<noteq> lit ''[1]''" "lit ''[1]'' \<noteq> reply_en" "lit ''[1]'' \<noteq> reply_ja"
  by (simp_all add: reply_ja_def reply_en_def reply_cut_def lit_def)

lemma loads_reply_en:
  "json_loads (example_env m slack) reply_en =
     Inr (JObject [(lit ''summary'', JString (lit ''S'')),
                   (lit ''language'', JString (lit ''en'')),
                   (lit ''body_translated'', JString (lit ''T''))])"
  by (simp add: example_env_def example_loads_def)

lemma loads_reply_ja:
  "json_loads (example_env m slack) reply_ja =
     Inr (JObject [(lit ''summary'', JString (lit ''S'')),
                   (lit ''language'', JString (lit ''ja''))])"
  by (simp add: example_env_def example_loads_def reply_texts_differ)

lemma loads_reply_cut:
  "json_loads (example_env m slack) reply_cut =
     Inl \<lparr>kind = JSONDecodeError, message = lit ''not JSON''\<rparr>"
  by (simp add: example_env_def example_loads_def reply_texts_differ)

lemma loads_oops:
  "json_loads (example_env m slack) (lit ''oops'') =
     Inl \<lparr>kind = JSONDecodeError, message = lit ''not JSON''\<rparr>"
  by (simp add: example_env_def example_loads_def reply_texts_differ)

lemma loads_array:
  "json_loads (example_env m slack) (lit ''[1]'') = Inr (JArray [JNumber 1])"
  by (simp add: example_env_def example_loads_def reply_texts_differ)

lemma content_of_saying_ja: "content_of (saying reply_ja) = reply_ja"
  by (simp add: content_of_def content_or_default_def saying_def strip_def reply_ja_def
      lit_def isspace_def)

lemma normalize_calling_en:
  "normalize_reply (example_env m slack) (calling (lit ''reply_processed_text'') reply_en) =
     Inr (Some summary_S, Some translation_T)"
  by (simp add: normalize_reply_def loads_reply_en function_call_calling format_reply_dict
      summary_S_def translation_T_def dict_get_def dict_has_def del: format_reply.simps)
    (simp add: lit_def)

lemma normalize_saying_ja:
  "normalize_reply (example_env m slack) (saying reply_ja) = Inr (Some summary_S, None)"
  by (simp add: normalize_reply_def content_of_saying_ja loads_reply_ja function_call_saying
      format_reply_dict summary_S_def dict_get_def dict_has_def del: format_reply.simps)
    (simp_all add: lit_def)

text \<open>
  Claim C3. When the answer parses to a \<open>dict\<close>, on either path (the arguments of a call
  of \<open>reply_processed_text\<close>, or the content when no function is called), there is a
  summary segment, and there is a translation segment exactly when the \<open>language\<close>
  entry is not \<open>"ja"\<close> and the key \<open>body_translated\<close> is present; the segment then
  carries that entry under its heading. A segment is posted when it is truthy.
\<close>

theorem translation_iff_foreign_and_supplied:
  assumes "(function_call m = Some fc \<and> name fc = lit ''reply_processed_text''
              \<and> json_loads env (arguments fc) = Inr (JObject args))
         \<or> (function_call m = None \<and> json_loads env (content_of m) = Inr (JObject args))"
  shows "\<exists>summary body.
      normalize_reply env m = Inr (Some summary, body)
    \<and> truthy (Some summary)
    \<and> (truthy body \<longleftrightarrow>
         dict_get args (lit ''language'') JNull \<noteq> JString (lit ''ja'')
         \<and> dict_has args (lit ''body_translated''))
    \<and> (body \<noteq> None \<longrightarrow>
         body = Some (newline @ translation_heading @ newline
           @ py_format (py_repr env) (dict_get args (lit ''body_translated'') (JString (lit ''???'')))
           @ newline))"
  using assms
  by (auto simp add: normalize_reply_def format_reply_dict truthy_def newline_def
      simp del: format_reply.simps)

theorem translation_iff_foreign_and_supplied_witness:
  "normalize_reply (example_env (calling (lit ''reply_processed_text'') reply_en) slack_accepts)
     (calling (lit ''reply_processed_text'') reply_en) = Inr (Some summary_S, Some translation_T)
   \<and> normalize_reply (example_env (saying reply_ja) slack_accepts) (saying reply_ja)
       = Inr (Some summary_S, None)"
proof -
  let ?A = "example_env (calling (lit ''reply_processed_text'') reply_en) slack_accepts"
  let ?B = "example_env (saying reply_ja) slack_accepts"
  let ?en = "[(lit ''summary'', JString (lit ''S'')), (lit ''language'', JString (lit ''en'')),
          (lit ''body_translated'', JString (lit ''T''))]"
  let ?ja = "[(lit ''summary'', JString (lit ''S'')), (lit ''language'', JString (lit ''ja''))]"
  have hA: "(function_call (calling (lit ''reply_processed_text'') reply_en)
               = Some \<lparr>name = lit ''reply_processed_text'', arguments = reply_en\<rparr>
             \<and> name \<lparr>name = lit ''reply_processed_text'', arguments = reply_en\<rparr>
                 = lit ''reply_processed_text''
             \<and> json_loads ?A (arguments \<lparr>name = lit ''reply_processed_text'', arguments = reply_en\<rparr>)
                 = Inr (JObject ?en))
          \<or> (function_call (calling (lit ''reply_processed_text'') reply_en) = None
             \<and> json_loads ?A (content_of (calling (lit ''reply_processed_text'') reply_en))
                 = Inr (JObject ?en))"
    by (simp add: function_call_calling loads_reply_en)
  have hB: "(function_call (saying reply_ja) = Some fc
             \<and> name fc = lit ''reply_processed_text''
             \<and> json_loads ?B (arguments fc) = Inr (JObject ?ja))
          \<or> (function_call (saying reply_ja) = None
             \<and> json_loads ?B (content_of (saying reply_ja)) = Inr (JObject ?ja))" for fc
    by (simp add: content_of_saying_ja loads_reply_ja function_call_saying)
  have dA: "dict_get ?en (lit ''language'') JNull \<noteq> JString (lit ''ja'')
              \<and> dict_has ?en (lit ''body_translated'')"
    by (simp add: dict_get_def dict_has_def lit_def)
  have dB: "\<not> (dict_get ?ja (lit ''language'') JNull \<noteq> JString (lit ''ja'')
              \<and> dict_has ?ja (lit ''body_translated''))"
    by (simp add: dict_get_def dict_has_def lit_def)
  from translation_iff_foreign_and_supplied [OF hA] dA
  obtain sa ba where a: "normalize_reply ?A (calling (lit ''reply_processed_text'') reply_en)
      = Inr (Some sa, ba)" and "truthy ba"
    by blast
  from translation_iff_foreign_and_supplied [OF hB] dB
  obtain sb bb where b: "normalize_reply ?B (saying reply_ja) = Inr (Some sb, bb)" and "\<not> truthy bb"
    by blast
  from a b show ?thesis
    by (simp add: normalize_calling_en normalize_saying_ja)
qed

text \<open>
  Claim C10. When the answer calls a function whose name is not
  \<open>reply_processed_text\<close>, \<open>summary\<close> and \<open>body\<close> stay \<open>None\<close>: nothing is posted, no
  diagnostic either, and \<open>summerize_text\<close> returns normally in the state the model call
  left.
\<close>

theorem other_function_is_dropped:
  assumes "chat_completion_create env page s = (Inr (Some (m # ms)), s1)"
    and "function_call m = Some fc"
    and "name fc \<noteq> lit ''reply_processed_text''"
  shows "normalize_reply env m = Inr (None, None)
    \<and> summerize_text env ev page s = (Inr (), s1)"
  using assms by (simp add: normalize_reply_def summerize_text_def post_segments_def truthy_def)

lemma completion_answering:
  "chat_completion_create (example_env m slack) page (initial_state w) =
     (Inr (Some [m]), \<lparr>outside = w, trace = [Call], processed_ids = []\<rparr>)"
  by (simp add: chat_completion_create_def retry_def retry_loop.simps example_env_def
      answering_def initial_state_def)

theorem other_function_is_dropped_witness:
  "summerize_text (example_env (calling (lit ''search'') reply_en) slack_accepts)
      (example_event (lit ''C1'') []) (lit ''page'') (initial_state []) =
     (Inr (), \<lparr>outside = [], trace = [Call], processed_ids = []\<rparr>)"
proof -
  have n: "name \<lparr>name = lit ''search'', arguments = reply_en\<rparr> \<noteq> lit ''reply_processed_text''"
    by (simp add: lit_def)
  from other_function_is_dropped [OF completion_answering function_call_calling n]
  show ?thesis by simp
qed

text \<open>
  Claim C4. When no function is called and the content does not load as a \<open>dict\<close>
  (\<open>json.loads\<close> raises, or it returns another value and \<open>format_reply\<close> raises on it),
  the exception is caught: \<open>summary\<close> stays \<open>None\<close> and \<open>body\<close> is the diagnostic
  \<open>Parse `content` failed:\<close> followed by the text that was handed to \<open>json.loads\<close>
  between backticks. That text is \<open>message.content\<close> (or \<open>???\<close> when it is missing or empty)
  without the white space around it; the diagnostic is not empty, so it is posted.
\<close>

theorem unparsable_content_is_echoed:
  assumes "function_call m = None"
    and "\<forall>args. json_loads env (content_of m) \<noteq> Inr (JObject args)"
  shows "normalize_reply env m = Inr (None, Some (parse_failed (content_of m)))
    \<and> truthy (Some (parse_failed (content_of m)))
    \<and> sublist (content_of m) (parse_failed (content_of m))
    \<and> (\<exists>lead trail. content_or_default m = lead @ content_of m @ trail
          \<and> list_all isspace lead \<and> list_all isspace trail)"
proof -
  have n: "normalize_reply env m = Inr (None, Some (parse_failed (content_of m)))"
  proof (cases "json_loads env (content_of m)")
    case (Inl e)
    with assms(1) show ?thesis by (simp add: normalize_reply_def)
  next
    case (Inr v)
    with assms(2) have "\<forall>args. v \<noteq> JObject args" by simp
    then have "format_reply (py_repr env) v = Inl \<lparr>kind = AttributeError, message = lit ''get''\<rparr>"
      by (cases v) simp_all
    with Inr assms(1) show ?thesis by (simp add: normalize_reply_def)
  qed
  have t: "truthy (Some (parse_failed (content_of m)))"
    by (simp add: truthy_def parse_failed_def lit_def)
  have s: "sublist (content_of m) (parse_failed (content_of m))"
    unfolding parse_failed_def sublist_def by blast
  from strip_decomposes [of "content_or_default m"]
  have d: "\<exists>lead trail. content_or_default m = lead @ content_of m @ trail
          \<and> list_all isspace lead \<and> list_all isspace trail"
    by (simp add: content_of_def)
  from n t s d show ?thesis by blast
qed

lemma content_of_saying_oops: "content_of (saying (lit '' oops '')) = lit ''oops''"
  by (simp add: content_of_def content_or_default_def saying_def strip_def lit_def isspace_def)

lemma content_of_saying_array: "content_of (saying (lit ''[1]'')) = lit ''[1]''"
  by (simp add: content_of_def content_or_default_def saying_def strip_def lit_def isspace_def)

theorem unparsable_content_is_echoed_witness:
  "normalize_reply (example_env (saying (lit '' oops '')) slack_accepts) (saying (lit '' oops ''))
     = Inr (None, Some (lit ''Parse `content` failed: ```oops```''))
   \<and> normalize_reply (example_env (saying (lit ''[1]'')) slack_accepts) (saying (lit ''[1]''))
     = Inr (None, Some (lit ''Parse `content` failed: ```[1]```''))"
proof -
  let ?A = "example_env (saying (lit '' oops '')) slack_accepts"
  let ?B = "example_env (saying (lit ''[1]'')) slack_accepts"
  have hA: "\<forall>args. json_loads ?A (content_of (saying (lit '' oops ''))) \<noteq> Inr (JObject args)"
    by (simp add: content_of_saying_oops loads_oops)
  have hB: "\<forall>args. json_loads ?B (content_of (saying (lit ''[1]''))) \<noteq> Inr (JObject args)"
    by (simp add: content_of_saying_array loads_array)
  from unparsable_content_is_echoed [OF function_call_saying hA]
  have a: "normalize_reply ?A (saying (lit '' oops '')) = Inr (None, Some (parse_failed (lit ''oops'')))"
    by (simp only: content_of_saying_oops)
  from unparsable_content_is_echoed [OF function_call_saying hB]
  have b: "normalize_reply ?B (saying (lit ''[1]'')) = Inr (None, Some (parse_failed (lit ''[1]'')))"
    by (simp only: content_of_saying_array)
  have "parse_failed (lit ''oops'') = lit ''Parse `content` failed: ```oops```''"
    and "parse_failed (lit ''[1]'') = lit ''Parse `content` failed: ```[1]```''"
    by (simp_all add: parse_failed_def lit_def)
  with a b show ?thesis by simp
qed

text \<open>
  Claim C5 at its failing input: the answer calls \<open>reply_processed_text\<close> with arguments
  that are not JSON. \<open>json.loads\<close> stands outside any \<open>try\<close> on this path, so its
  \<open>JSONDecodeError\<close> leaves \<open>summerize_text\<close>; nothing is posted.
\<close>

theorem malformed_arguments_raise:
  "summerize_text (example_env (calling (lit ''reply_processed_text'') reply_cut) slack_accepts)
      (example_event (lit ''C1'') []) (lit ''page'') (initial_state []) =
     (Inl \<lparr>kind = JSONDecodeError, message = lit ''not JSON''\<rparr>,
      \<lparr>outside = [], trace = [Call], processed_ids = []\<rparr>)"
  by (simp add: summerize_text_def completion_answering normalize_reply_def function_call_calling
      loads_reply_cut)

section \<open>Properties of the link rewriting\<close>












section \<open>Properties of posting and of the handler\<close>

text \<open>
  Claim C9, as the code has it. Both segments are posted by two \<open>await\<close>s in a row. When
  posting the summary fails (its retries exhausted, or an exception that is not retried),
  the exception leaves \<open>summerize_text\<close> in the state that post left: the translation
  is not attempted.
\<close>

theorem failed_summary_post_stops_reply:
  assumes "chat_completion_create env page s = (Inr (Some (m # ms)), s1)"
    and "normalize_reply env m = Inr (Some summary, body)"
    and "summary \<noteq> []"
    and "chat_post_message env (summary_post ev summary) s1 = (Inl e, s2)"
  shows "summerize_text env ev page s = (Inl e, s2)"
  using assms by (simp add: summerize_text_def post_segments_def truthy_def)

lemma post_rejected:
  "chat_post_message (example_env m slack_rejects) p \<lparr>outside = w, trace = tr, processed_ids = c\<rparr> =
     (Inl \<lparr>kind = SlackApiError, message = lit ''ratelimited''\<rparr>,
      \<lparr>outside = w @ [p, p, p],
       trace = tr @ [Call, LogError \<lparr>kind = SlackApiError, message = lit ''ratelimited''\<rparr> 1, Sleep 1,
                     Call, LogError \<lparr>kind = SlackApiError, message = lit ''ratelimited''\<rparr> 2, Sleep 2,
                     Call, LogError \<lparr>kind = SlackApiError, message = lit ''ratelimited''\<rparr> 4],
       processed_ids = c\<rparr>)"
  by (simp add: chat_post_message_def retry_def retry_loop.simps example_env_def slack_rejects_def
      isinstance_def issubclass_def)

lemma post_accepted:
  "chat_post_message (example_env m slack_accepts) p \<lparr>outside = w, trace = tr, processed_ids = c\<rparr> =
     (Inr (Some ()), \<lparr>outside = w @ [p], trace = tr @ [Call], processed_ids = c\<rparr>)"
  by (simp add: chat_post_message_def retry_def retry_loop.simps example_env_def slack_accepts_def)

lemma summary_S_nonempty: "summary_S \<noteq> []" "translation_T \<noteq> []"
  by (simp_all add: summary_S_def translation_T_def newline_def)

theorem failed_summary_post_stops_reply_witness:
  "summerize_text (example_env (calling (lit ''reply_processed_text'') reply_en) slack_rejects)
      (example_event (lit ''C1'') []) (lit ''page'') (initial_state []) =
     (Inl \<lparr>kind = SlackApiError, message = lit ''ratelimited''\<rparr>,
      \<lparr>outside = [summary_post (example_event (lit ''C1'') []) summary_S,
                  summary_post (example_event (lit ''C1'') []) summary_S,
                  summary_post (example_event (lit ''C1'') []) summary_S],
       trace = [Call,
                Call, LogError \<lparr>kind = SlackApiError, message = lit ''ratelimited''\<rparr> 1, Sleep 1,
                Call, LogError \<lparr>kind = SlackApiError, message = lit ''ratelimited''\<rparr> 2, Sleep 2,
                Call, LogError \<lparr>kind = SlackApiError, message = lit ''ratelimited''\<rparr> 4],
       processed_ids = []\<rparr>)"
  using failed_summary_post_stops_reply [OF completion_answering normalize_calling_en
      summary_S_nonempty(1) post_rejected]
  by simp

text \<open>
  Claim C9 as stated fails: the answer has both segments, Slack rejects every post, and
  Slack is asked three times for the summary and never for the translation.
\<close>

theorem summary_failure_blocks_translation:
  "normalize_reply (example_env (calling (lit ''reply_processed_text'') reply_en) slack_rejects)
     (calling (lit ''reply_processed_text'') reply_en) = Inr (Some summary_S, Some translation_T)
   \<and> fst (summerize_text (example_env (calling (lit ''reply_processed_text'') reply_en) slack_rejects)
      (example_event (lit ''C1'') []) (lit ''page'') (initial_state []))
      = Inl \<lparr>kind = SlackApiError, message = lit ''ratelimited''\<rparr>
   \<and> outside (snd (summerize_text
        (example_env (calling (lit ''reply_processed_text'') reply_en) slack_rejects)
        (example_event (lit ''C1'') []) (lit ''page'') (initial_state [])))
      = [summary_post (example_event (lit ''C1'') []) summary_S,
         summary_post (example_event (lit ''C1'') []) summary_S,
         summary_post (example_event (lit ''C1'') []) summary_S]
   \<and> body_post (example_event (lit ''C1'') []) translation_T
      \<noteq> summary_post (example_event (lit ''C1'') []) summary_S"
  by (simp add: summerize_text_def completion_answering normalize_calling_en post_segments_def
      truthy_def summary_S_nonempty post_rejected body_post_def summary_post_def)

lemma process_items_append:
  "process_items env ev xs s = (Inr (), s1) \<Longrightarrow>
   process_items env ev (xs @ ys) s = process_items env ev ys s1"
proof (induction xs arbitrary: s)
  case Nil
  then show ?case by simp
next
  case (Cons x xs)
  obtain ty u where x: "x = (ty, u)" by (cases x)
  show ?case
  proof (cases "ty = Some (lit ''link'')")
    case False
    with Cons x show ?thesis by simp
  next
    case True
    show ?thesis
    proof (cases u)
      case None
      with Cons.prems x True show ?thesis by simp
    next
      case (Some a)
      obtain r s' where p: "process_link env ev a s = (r, s')" by (cases "process_link env ev a s")
      show ?thesis
      proof (cases r)
        case (Inl e)
        with Cons.prems x True Some p show ?thesis by simp
      next
        case (Inr v)
        with Cons.prems x True Some p have "process_items env ev xs s' = (Inr (), s1)" by simp
        from Cons.IH [OF this] x True Some p Inr show ?thesis by simp
      qed
    qed
  qed
qed

text \<open>
  Claim C8, as the code has it. The links of an event are processed one after the
  other, and \<open>await process_link(...)\<close> stands in no \<open>try\<close>. When the links before a
  link were processed and fetching or summarising that link raises, the exception
  leaves the handler in the state that link left: the links after it are not processed.
\<close>

theorem failing_link_aborts_later_links:
  assumes "previous_message ev = None"
    and "\<not> cache_contains (processed_ids s) (message_id ev) now"
    and "concat (concat (blocks ev)) = before @ (Some (lit ''link''), Some u) # later"
    and "process_items env ev before
           (s\<lparr>trace := trace s @ [Ack],
              processed_ids := cache_setitem (processed_ids s) (message_id ev) now\<rparr>) = (Inr (), s1)"
    and "process_link env ev u s1 = (Inl e, s2)"
  shows "handle_message_events env ev now s = (Inl e, s2)"
proof -
  from process_items_append [OF assms(4), of "(Some (lit ''link''), Some u) # later"] assms(5)
  have "process_items env ev (before @ (Some (lit ''link''), Some u) # later)
           (s\<lparr>trace := trace s @ [Ack],
              processed_ids := cache_setitem (processed_ids s) (message_id ev) now\<rparr>) = (Inl e, s2)"
    by simp
  with assms(1,2,3) show ?thesis
    by (simp add: handle_message_events_def Let_def)
qed

lemma completion_answering_at:
  "chat_completion_create (example_env m slack) page \<lparr>outside = w, trace = tr, processed_ids = c\<rparr> =
     (Inr (Some [m]), \<lparr>outside = w, trace = tr @ [Call], processed_ids = c\<rparr>)"
  by (simp add: chat_completion_create_def retry_def retry_loop.simps example_env_def
      answering_def)

lemma resolve_plain:
  "resolve_link env down_url = Inr down_url" "resolve_link env up_url = Inr up_url"
  by (simp_all add: resolve_link_def redirector_prefix_def down_url_def up_url_def lit_def)

lemma get_down:
  "requests_get (example_env m slack) down_url w =
     (Inl \<lparr>kind = RequestException, message = lit ''connection refused''\<rparr>, w)"
  by (simp add: example_env_def example_get_def down_url_def)

lemma up_neq_down: "up_url \<noteq> lit ''https://down.example/''"
  by (simp add: up_url_def lit_def)

lemma get_up:
  "requests_get (example_env m slack) up_url w = (Inr \<lparr>status_code = 200, body_text = up_url\<rparr>, w)"
  by (simp add: example_env_def example_get_def up_neq_down)

lemma process_link_down:
  "process_link (example_env m slack) ev down_url \<lparr>outside = w, trace = tr, processed_ids = c\<rparr> =
     (Inl \<lparr>kind = RequestException, message = lit ''connection refused''\<rparr>,
      \<lparr>outside = w, trace = tr, processed_ids = c\<rparr>)"
  by (simp add: process_link_def resolve_plain get_down)

lemma process_link_up:
  "process_link (example_env answer_en slack_accepts) ev up_url
      \<lparr>outside = w, trace = tr, processed_ids = c\<rparr> =
     (Inr (), \<lparr>outside = w @ [summary_post ev summary_S, body_post ev translation_T],
               trace = tr @ [Call, Call, Call], processed_ids = c\<rparr>)"
  by (simp add: process_link_def resolve_plain get_up raise_for_status_def summerize_text_def
      completion_answering_at answer_en_def normalize_calling_en post_segments_def truthy_def
      summary_S_nonempty post_accepted)

lemma fresh_key:
  "\<not> cache_contains [] k now" "cache_setitem [] k now = [(k, now + 60)]"
  by (simp_all add: cache_contains_def cache_setitem_def expire_def maxsize_def ttl_def)

lemma example_event_fields:
  "previous_message (example_event c items) = None"
  "concat (concat (blocks (example_event c items))) = items"
  by (simp_all add: example_event_def)

theorem failing_link_aborts_later_links_witness:
  "handle_message_events (example_env answer_en slack_accepts)
      (example_event (lit ''C1'') [link_item down_url, link_item up_url]) 0 (initial_state []) =
     (Inl \<lparr>kind = RequestException, message = lit ''connection refused''\<rparr>,
      \<lparr>outside = [], trace = [Ack],
       processed_ids =
         [(message_id (example_event (lit ''C1'') [link_item down_url, link_item up_url]), 60)]\<rparr>)"
proof -
  let ?ev = "example_event (lit ''C1'') [link_item down_url, link_item up_url]"
  let ?s0 = "\<lparr>outside = [], trace = [Ack], processed_ids = [(message_id ?ev, 60)]\<rparr> :: post list st"
  have a: "\<not> cache_contains (processed_ids (initial_state ([] :: post list))) (message_id ?ev) 0"
    by (simp add: initial_state_def fresh_key)
  have b: "concat (concat (blocks ?ev)) = [] @ (Some (lit ''link''), Some down_url) # [link_item up_url]"
    by (simp add: example_event_fields link_item_def)
  have c: "process_items (example_env answer_en slack_accepts) ?ev []
      ((initial_state [])\<lparr>trace := trace (initial_state []) @ [Ack],
          processed_ids := cache_setitem (processed_ids (initial_state [])) (message_id ?ev) 0\<rparr>)
      = (Inr (), ?s0)"
    by (simp add: initial_state_def fresh_key)
  from failing_link_aborts_later_links [OF example_event_fields(1) a b c process_link_down]
  show ?thesis .
qed

text \<open>
  Claim C8 as stated fails: of two links the first cannot be fetched; the handler
  raises and nothing is posted, although the second link alone gets its summary and
  its translation posted.
\<close>

theorem first_link_failure_stops_second_link:
  "fst (handle_message_events (example_env answer_en slack_accepts)
      (example_event (lit ''C1'') [link_item down_url, link_item up_url]) 0 (initial_state []))
     = Inl \<lparr>kind = RequestException, message = lit ''connection refused''\<rparr>
   \<and> outside (snd (handle_message_events (example_env answer_en slack_accepts)
      (example_event (lit ''C1'') [link_item down_url, link_item up_url]) 0 (initial_state [])))
     = []
   \<and> outside (snd (handle_message_events (example_env answer_en slack_accepts)
      (example_event (lit ''C1'') [link_item up_url]) 0 (initial_state [])))
     = [summary_post (example_event (lit ''C1'') [link_item up_url]) summary_S,
        body_post (example_event (lit ''C1'') [link_item up_url]) translation_T]"
  by (simp add: handle_message_events_def Let_def example_event_fields initial_state_def fresh_key
      link_item_def process_link_down process_link_up)

section \<open>Properties of the cache of processed events\<close>

lemma retry_loop_processed_ids:
  "processed_ids (snd (retry_loop exceptions total_tries backoff_factor func i wait_time s))
     = processed_ids s"
proof (induction "total_tries - i" arbitrary: i wait_time s)
  case 0
  then show ?case by (subst retry_loop.simps) simp
next
  case (Suc n)
  obtain r w where f: "func (outside s) = (r, w)" by (cases "func (outside s)")
  show ?case
  proof (cases r)
    case (Inr v)
    with f show ?thesis by (subst retry_loop.simps) simp
  next
    case (Inl e)
    show ?thesis
    proof (cases "i < total_tries \<and> isinstance e exceptions \<and> i \<noteq> total_tries - 1")
      case False
      with f Inl show ?thesis by (subst retry_loop.simps) auto
    next
      case True
      with Suc.hyps(2) have n: "n = total_tries - Suc i" by simp
      from Suc.hyps(1) [OF n] f Inl True show ?thesis
        by (subst retry_loop.simps) simp
    qed
  qed
qed

lemma chat_processed_ids:
  "processed_ids (snd (chat_completion_create env page s)) = processed_ids s"
  "processed_ids (snd (chat_post_message env p s)) = processed_ids s"
  by (simp_all add: chat_completion_create_def chat_post_message_def retry_def
      retry_loop_processed_ids)

lemma post_segments_processed_ids:
  "processed_ids (snd (post_segments env ev summary body s)) = processed_ids s"
proof -
  have a: "\<And>p s r s'. chat_post_message env p s = (r, s') \<Longrightarrow> processed_ids s' = processed_ids s"
    using chat_processed_ids(2) by (metis snd_conv)
  show ?thesis
    unfolding post_segments_def
    by (auto split: prod.splits sum.splits if_splits dest!: a)
qed

lemma summerize_text_processed_ids:
  "processed_ids (snd (summerize_text env ev page s)) = processed_ids s"
proof -
  have a: "\<And>r s'. chat_completion_create env page s = (r, s') \<Longrightarrow> processed_ids s' = processed_ids s"
    using chat_processed_ids(1) by (metis snd_conv)
  show ?thesis
    unfolding summerize_text_def
    by (auto split: prod.splits sum.splits option.splits list.splits
        simp add: post_segments_processed_ids dest!: a)
qed

lemma process_link_processed_ids:
  "processed_ids (snd (process_link env ev u s)) = processed_ids s"
  unfolding process_link_def
  by (auto split: prod.splits sum.splits simp add: summerize_text_processed_ids)

lemma process_items_processed_ids:
  "processed_ids (snd (process_items env ev items s)) = processed_ids s"
proof (induction items arbitrary: s)
  case Nil
  then show ?case by simp
next
  case (Cons x items)
  obtain ty u where x: "x = (ty, u)" by (cases x)
  have a: "\<And>a r s'. process_link env ev a s = (r, s') \<Longrightarrow> processed_ids s' = processed_ids s"
    using process_link_processed_ids by (metis snd_conv)
  show ?case
    unfolding x
    by (auto split: prod.splits sum.splits option.splits simp add: Cons.IH dest!: a)
qed

lemma handle_processed_ids:
  "processed_ids (snd (handle_message_events env ev now s)) =
     (if passes_gate ev now s then cache_setitem (processed_ids s) (message_id ev) now
      else processed_ids s)"
  by (auto simp add: handle_message_events_def Let_def passes_gate_def
      process_items_processed_ids)

lemma dropWhile_keeps: "\<not> P y \<Longrightarrow> dropWhile P (xs @ y # ys) = dropWhile P xs @ y # ys"
  by (induction xs) auto

lemma mark_contains:
  assumes "links = pre @ (K, e) # post" and "K \<notin> fst ` set pre" and "now < e"
  shows "cache_contains links K now"
proof -
  from assms(2) have "map_of pre K = None" by (simp add: map_of_eq_None_iff)
  with assms(1) have "map_of links K = Some e" by (simp add: map_add_def)
  with assms(3) show ?thesis by (simp add: cache_contains_def)
qed

lemma setitem_keeps_mark:
  assumes l: "links = pre @ (K, e) # post"
    and k: "K \<notin> fst ` set pre"
    and n: "length post + 2 \<le> maxsize"
    and t: "now < e"
    and d: "k \<noteq> K"
  shows "\<exists>pre' post'. cache_setitem links k now = pre' @ (K, e) # post'
            \<and> K \<notin> fst ` set pre' \<and> length post' \<le> length post + 1"
proof -
  let ?P = "\<lambda>(k, expires). \<not> now < expires"
  let ?Q = "\<lambda>(k', expires). k' \<noteq> k"
  let ?pre1 = "dropWhile ?P pre"
  let ?live = "?pre1 @ (K, e) # post"
  from t have "\<not> ?P (K, e)" by simp
  then have live: "expire links now = ?live"
    unfolding expire_def l by (rule dropWhile_keeps)
  have "set ?pre1 \<subseteq> set pre" by (auto dest: set_dropWhileD)
  with k have k1: "K \<notin> fst ` set ?pre1" by auto
  let ?room = "if map_of ?live k = None \<and> maxsize < length ?live + 1
               then drop (length ?live + 1 - maxsize) ?live else ?live"
  have "\<exists>pre2. ?room = pre2 @ (K, e) # post \<and> set pre2 \<subseteq> set ?pre1"
  proof (cases "map_of ?live k = None \<and> maxsize < length ?live + 1")
    case False
    then show ?thesis by auto
  next
    case True
    let ?d = "length ?live + 1 - maxsize"
    from n have "?d \<le> length ?pre1" by simp
    then have "drop ?d ?live = drop ?d ?pre1 @ (K, e) # post" by simp
    moreover have "set (drop ?d ?pre1) \<subseteq> set ?pre1" by (rule set_drop_subset)
    ultimately show ?thesis using True by auto
  qed
  then obtain pre2 where r: "?room = pre2 @ (K, e) # post" and s: "set pre2 \<subseteq> set ?pre1"
    by blast
  have "cache_setitem links k now = filter ?Q ?room @ [(k, now + ttl)]"
    by (simp add: cache_setitem_def live Let_def)
  also have "\<dots> = filter ?Q pre2 @ (K, e) # (filter ?Q post @ [(k, now + ttl)])"
    using d by (simp only: r) simp
  finally have c: "cache_setitem links k now =
      filter ?Q pre2 @ (K, e) # (filter ?Q post @ [(k, now + ttl)])" .
  have "K \<notin> fst ` set (filter ?Q pre2)" using k1 s by auto
  moreover have "length (filter ?Q post @ [(k, now + ttl)]) \<le> length post + 1" by simp
  ultimately show ?thesis using c by blast
qed

lemma setitem_marks:
  "\<exists>pre. cache_setitem links k now = pre @ (k, now + ttl) # [] \<and> k \<notin> fst ` set pre"
proof -
  let ?Q = "\<lambda>(k', expires). k' \<noteq> k"
  have "\<exists>room. cache_setitem links k now = filter ?Q room @ [(k, now + ttl)]"
    unfolding cache_setitem_def Let_def by (intro exI) (rule refl)
  then obtain room where "cache_setitem links k now = filter ?Q room @ [(k, now + ttl)]" by blast
  moreover have "k \<notin> fst ` set (filter ?Q room)" by auto
  ultimately show ?thesis by auto
qed

lemma process_items_Cons:
  "process_items env ev (x # xs) s =
     (case process_items env ev [x] s of
        (Inl e, s') \<Rightarrow> (Inl e, s')
      | (Inr u, s') \<Rightarrow> process_items env ev xs s')"
  by (cases x) (auto split: option.splits prod.splits sum.splits)

lemma retry_loop_ignores_cache:
  "retry_loop exceptions total_tries backoff_factor func i wait_time (s\<lparr>processed_ids := c\<rparr>) =
     (fst (retry_loop exceptions total_tries backoff_factor func i wait_time s),
      (snd (retry_loop exceptions total_tries backoff_factor func i wait_time s))
        \<lparr>processed_ids := c\<rparr>)"
proof (induction "total_tries - i" arbitrary: i wait_time s)
  case 0
  then show ?case
    by (subst retry_loop.simps, subst (2) retry_loop.simps, subst (3) retry_loop.simps) simp
next
  case (Suc n)
  obtain r w where f: "func (outside s) = (r, w)" by (cases "func (outside s)")
  show ?case
  proof (cases r)
    case (Inr v)
    with f show ?thesis
      by (subst retry_loop.simps, subst (2) retry_loop.simps, subst (3) retry_loop.simps) simp
  next
    case (Inl e)
    show ?thesis
    proof (cases "i < total_tries \<and> isinstance e exceptions \<and> i \<noteq> total_tries - 1")
      case False
      with f Inl show ?thesis
        by (subst retry_loop.simps, subst (2) retry_loop.simps, subst (3) retry_loop.simps) auto
    next
      case True
      with Suc.hyps(2) have n: "n = total_tries - Suc i" by simp
      let ?s = "s\<lparr>outside := w,
                   trace := trace s @ [Call, LogError e wait_time, Sleep wait_time]\<rparr>"
      have eq: "s\<lparr>processed_ids := c, outside := w,
                   trace := trace s @ [Call, LogError e wait_time, Sleep wait_time]\<rparr>
            = ?s\<lparr>processed_ids := c\<rparr>" by simp
      from Suc.hyps(1) [OF n, of "wait_time * backoff_factor" ?s] f Inl True show ?thesis
        by (subst retry_loop.simps, subst (2) retry_loop.simps, subst (3) retry_loop.simps)
          (simp add: eq)
    qed
  qed
qed

lemma chat_ignores_cache:
  "chat_completion_create env page (s\<lparr>processed_ids := c\<rparr>) =
     (fst (chat_completion_create env page s),
      (snd (chat_completion_create env page s))\<lparr>processed_ids := c\<rparr>)"
  "chat_post_message env p (s\<lparr>processed_ids := c\<rparr>) =
     (fst (chat_post_message env p s), (snd (chat_post_message env p s))\<lparr>processed_ids := c\<rparr>)"
  by (simp_all add: chat_completion_create_def chat_post_message_def retry_def
      retry_loop_ignores_cache)

lemma post_segments_ignores_cache:
  "post_segments env ev summary body (s\<lparr>processed_ids := c\<rparr>) =
     (fst (post_segments env ev summary body s),
      (snd (post_segments env ev summary body s))\<lparr>processed_ids := c\<rparr>)"
  unfolding post_segments_def
  by (auto simp add: chat_ignores_cache split: prod.splits sum.splits)

lemma summerize_text_ignores_cache:
  "summerize_text env ev page (s\<lparr>processed_ids := c\<rparr>) =
     (fst (summerize_text env ev page s),
      (snd (summerize_text env ev page s))\<lparr>processed_ids := c\<rparr>)"
  unfolding summerize_text_def
  by (auto simp add: chat_ignores_cache post_segments_ignores_cache
      split: prod.splits sum.splits option.splits list.splits)

lemma cache_update_last:
  "s\<lparr>processed_ids := c, outside := w\<rparr> = s\<lparr>outside := w, processed_ids := c\<rparr>"
  by simp

lemma process_link_ignores_cache:
  "process_link env ev u (s\<lparr>processed_ids := c\<rparr>) =
     (fst (process_link env ev u s), (snd (process_link env ev u s))\<lparr>processed_ids := c\<rparr>)"
  unfolding process_link_def
  by (auto simp add: summerize_text_ignores_cache cache_update_last split: prod.splits sum.splits)

lemma process_items_ignores_cache:
  "process_items env ev items (s\<lparr>processed_ids := c\<rparr>) =
     (fst (process_items env ev items s),
      (snd (process_items env ev items s))\<lparr>processed_ids := c\<rparr>)"
proof (induction items arbitrary: s)
  case Nil
  then show ?case by simp
next
  case (Cons x items)
  obtain ty u where x: "x = (ty, u)" by (cases x)
  show ?case
    unfolding x
    by (auto simp add: Cons.IH process_link_ignores_cache split: prod.splits sum.splits option.splits)
qed


lemma step_keeps_cache:
  "\<forall>ev. t \<noteq> Acked ev \<Longrightarrow> processed_ids (snd (step env now t s)) = processed_ids s"
proof (cases t)
  case (Looping ev items)
  then show ?thesis
  proof (cases items)
    case Nil
    with Looping show ?thesis by simp
  next
    case (Cons item rest)
    have "processed_ids (snd (process_items env ev [item] s)) = processed_ids s"
      by (rule process_items_processed_ids)
    with Looping Cons show ?thesis
      by (auto split: prod.splits sum.splits)
  qed
qed auto

lemma gate_step_keeps_mark:
  assumes l: "processed_ids s = pre @ (K, e) # post"
    and k: "K \<notin> fst ` set pre"
    and n: "length post + 2 \<le> maxsize"
    and t: "now < e"
  shows "\<exists>pre' post'. processed_ids (snd (step env now (Acked ev) s)) = pre' @ (K, e) # post'
            \<and> K \<notin> fst ` set pre' \<and> length post' \<le> length post + 1"
proof (cases "passes_gate ev now s")
  case False
  with l k show ?thesis
    by (intro exI [of _ pre] exI [of _ post]) (auto simp add: passes_gate_def)
next
  case True
  have "message_id ev \<noteq> K"
  proof
    assume "message_id ev = K"
    with mark_contains [OF l k t] True show False by (simp add: passes_gate_def)
  qed
  from setitem_keeps_mark [OF l k n t this] True show ?thesis
    by (simp add: passes_gate_def)
qed

lemma perform_keeps_mark:
  assumes l: "processed_ids (snd p) = pre @ (K, e) # post"
    and k: "K \<notin> fst ` set pre"
    and n: "at_gate a (fst p) \<longrightarrow> length post + 2 \<le> maxsize"
    and t: "\<forall>t \<in> set (run_times [a]). t < e"
  shows "\<exists>pre' post'. processed_ids (snd (perform env a p)) = pre' @ (K, e) # post'
            \<and> K \<notin> fst ` set pre'
            \<and> length post' \<le> length post + (if at_gate a (fst p) then 1 else 0)"
proof -
  obtain tasks s where p: "p = (tasks, s)" by (cases p)
  show ?thesis
  proof (cases a)
    case (Arrive ev)
    with l k p show ?thesis by auto
  next
    case (Run i now)
    show ?thesis
    proof (cases "i < length tasks")
      case False
      with l k p Run show ?thesis by auto
    next
      case True
      obtain t' s' where st: "step env now (tasks ! i) s = (t', s')"
        by (cases "step env now (tasks ! i) s")
      with True p Run have ps: "snd (perform env a p) = s'" by simp
      show ?thesis
      proof (cases "\<exists>ev. tasks ! i = Acked ev")
        case False
        then have "\<forall>ev. tasks ! i \<noteq> Acked ev" by simp
        from step_keeps_cache [OF this, of env now s] st have "processed_ids s' = processed_ids s"
          by simp
        with l k p ps show ?thesis
          by (intro exI [of _ pre] exI [of _ post]) simp
      next
        case True
        then obtain ev where ac: "tasks ! i = Acked ev" by blast
        with \<open>i < length tasks\<close> p Run have g: "at_gate a (fst p)" by simp
        with n have n': "length post + 2 \<le> maxsize" by simp
        from t Run have t': "now < e" by simp
        from l p have l': "processed_ids s = pre @ (K, e) # post" by simp
        from gate_step_keeps_mark [OF l' k n' t', of env ev] st ac ps g show ?thesis by simp
      qed
    qed
  qed
qed

lemma schedule_keeps_mark:
  assumes "processed_ids (snd p) = pre @ (K, e) # post"
    and "K \<notin> fst ` set pre"
    and "length post + gate_runs env acts p < maxsize"
    and "\<forall>t \<in> set (run_times acts). t < e"
  shows "\<exists>pre' post'. processed_ids (snd (schedule env acts p)) = pre' @ (K, e) # post'
            \<and> K \<notin> fst ` set pre'"
  using assms
proof (induction acts arbitrary: p pre post)
  case Nil
  then show ?case by auto
next
  case (Cons a acts)
  from Cons.prems(3) have n: "at_gate a (fst p) \<longrightarrow> length post + 2 \<le> maxsize" by auto
  have t: "\<forall>t \<in> set (run_times [a]). t < e"
    using Cons.prems(4) by (cases a) auto
  from perform_keeps_mark [OF Cons.prems(1,2) n t, of env]
  obtain pre' post' where
    l': "processed_ids (snd (perform env a p)) = pre' @ (K, e) # post'"
    and k': "K \<notin> fst ` set pre'"
    and p': "length post' \<le> length post + (if at_gate a (fst p) then 1 else 0)"
    by blast
  from p' Cons.prems(3) have n': "length post' + gate_runs env acts (perform env a p) < maxsize"
    by (auto split: if_splits)
  have t': "\<forall>t \<in> set (run_times acts). t < e"
    using Cons.prems(4) by (cases a) auto
  from Cons.IH [OF l' k' n' t'] show ?case by simp
qed

lemma schedule_append:
  "schedule env (xs @ ys) p = schedule env ys (schedule env xs p)"
  by (induction xs arbitrary: p) auto

lemma loop_runs_alone:
  "k < length tasks \<Longrightarrow> tasks ! k = Looping ev items \<Longrightarrow>
    \<exists>n. schedule env (replicate n (Run k now)) (tasks, s) =
      (tasks[k := Returned (fst (process_items env ev items s))],
       snd (process_items env ev items s))"
proof (induction items arbitrary: tasks s)
  case Nil
  then have "schedule env (replicate 1 (Run k now)) (tasks, s) =
      (tasks[k := Returned (fst (process_items env ev [] s))], snd (process_items env ev [] s))"
    by simp
  then show ?case by blast
next
  case (Cons item items)
  obtain r s' where p: "process_items env ev [item] s = (r, s')"
    by (cases "process_items env ev [item] s")
  show ?case
  proof (cases r)
    case (Inl e)
    with p have "process_items env ev (item # items) s = (Inl e, s')"
      by (simp add: process_items_Cons [of env ev item items])
    with Cons.prems p Inl
    have "schedule env (replicate 1 (Run k now)) (tasks, s) =
      (tasks[k := Returned (fst (process_items env ev (item # items) s))],
       snd (process_items env ev (item # items) s))"
      by simp
    then show ?thesis by blast
  next
    case (Inr u)
    with p have a: "process_items env ev (item # items) s = process_items env ev items s'"
      by (simp add: process_items_Cons [of env ev item items])
    let ?tasks = "tasks[k := Looping ev items]"
    from Cons.prems p Inr
    have b: "perform env (Run k now) (tasks, s) = (?tasks, s')" by simp
    from Cons.prems have "k < length ?tasks" "?tasks ! k = Looping ev items" by simp_all
    from Cons.IH [OF this, of s'] obtain n where
      "schedule env (replicate n (Run k now)) (?tasks, s') =
         (?tasks[k := Returned (fst (process_items env ev items s'))],
          snd (process_items env ev items s'))"
      by blast
    with a b have "schedule env (replicate (Suc n) (Run k now)) (tasks, s) =
      (tasks[k := Returned (fst (process_items env ev (item # items) s))],
       snd (process_items env ev (item # items) s))"
      by simp
    then show ?thesis by blast
  qed
qed

lemma handler_runs_alone:
  "\<exists>n. schedule env (Arrive ev # replicate n (Run (length tasks) now)) (tasks, s) =
     (tasks @ [Returned (fst (handle_message_events env ev now s))],
      snd (handle_message_events env ev now s))"
proof -
  let ?k = "length tasks"
  let ?s0 = "s\<lparr>trace := trace s @ [Ack]\<rparr>"
  let ?h = "handle_message_events env ev now s"
  show ?thesis
  proof (cases "passes_gate ev now s")
    case False
    then have "?h = (Inr (), ?s0)"
      by (auto simp add: handle_message_events_def Let_def passes_gate_def)
    with False have "schedule env (Arrive ev # replicate 2 (Run ?k now)) (tasks, s) =
        (tasks @ [Returned (fst ?h)], snd ?h)"
      by (auto simp add: numeral_2_eq_2 passes_gate_def)
    then show ?thesis by blast
  next
    case True
    let ?items = "concat (concat (blocks ev))"
    let ?s1 = "?s0\<lparr>processed_ids := cache_setitem (processed_ids s) (message_id ev) now\<rparr>"
    let ?tasks = "tasks @ [Looping ev ?items]"
    from True have h: "?h = process_items env ev ?items ?s1"
      by (simp add: handle_message_events_def Let_def passes_gate_def)
    from True have a: "schedule env (Arrive ev # replicate 2 (Run ?k now)) (tasks, s) = (?tasks, ?s1)"
      by (simp add: numeral_2_eq_2 passes_gate_def)
    have "?k < length ?tasks" "?tasks ! ?k = Looping ev ?items" by simp_all
    from loop_runs_alone [OF this, of env now ?s1] obtain n where
      b: "schedule env (replicate n (Run ?k now)) (?tasks, ?s1) =
         (?tasks[?k := Returned (fst (process_items env ev ?items ?s1))],
          snd (process_items env ev ?items ?s1))"
      by blast
    have "Arrive ev # replicate (2 + n) (Run ?k now)
        = (Arrive ev # replicate 2 (Run ?k now)) @ replicate n (Run ?k now)"
      by (simp add: replicate_add numeral_2_eq_2)
    with a b h have "schedule env (Arrive ev # replicate (2 + n) (Run ?k now)) (tasks, s) =
        (tasks @ [Returned (fst ?h)], snd ?h)"
      by (simp only: schedule_append) simp
    then show ?thesis by blast
  qed
qed

lemma gate_commutes_with_item:
  assumes "i < length tasks" "j < length tasks" "i \<noteq> j"
    and "tasks ! i = Acked ev" "tasks ! j = Looping ev' items"
  shows "schedule env [Run i now, Run j now'] (tasks, s)
       = schedule env [Run j now', Run i now] (tasks, s)"
proof (cases items)
  case Nil
  with assms show ?thesis
    by (auto simp add: list_update_swap)
next
  case (Cons item rest)
  let ?c = "cache_setitem (processed_ids s) (message_id ev) now"
  obtain r s' where p: "process_items env ev' [item] s = (r, s')"
    by (cases "process_items env ev' [item] s")
  have f: "processed_ids s' = processed_ids s"
    using process_items_processed_ids [of env ev' "[item]" s] p by simp
  have q: "process_items env ev' [item] (s\<lparr>processed_ids := ?c\<rparr>) = (r, s'\<lparr>processed_ids := ?c\<rparr>)"
    using process_items_ignores_cache [where env = env and ev = ev' and items = "[item]"
        and s = s and c = ?c] p by simp
  from assms Cons p q f show ?thesis
    by (cases r) (auto simp add: list_update_swap)
qed


text \<open>
  Claim C2, as the code has it. A call that is at line 205 when the timer reads \<open>t1\<close> and
  gets past both \<open>return\<close>s marks its key in the same step, before it processes any
  link: it is in the loops with all its items still to visit, and the cache holds its
  key. Whatever the loop schedules from there on (items of this call or none of them yet,
  arrivals, acknowledgements, lines 205 to 215 and items of other calls), as long as
  fewer than \<open>maxsize\<close> of these steps are lines 205 to 215 of some call, a call with the
  same key that comes to line 205 before \<open>t1 + ttl\<close> returns there: it never enters the
  loops, no link is processed, nothing is posted and the cache is as it was.
\<close>

theorem duplicate_is_suppressed:
  assumes "k < length tasks"
    and "tasks ! k = Acked ev"
    and "previous_message ev = None"
    and "\<not> cache_contains (processed_ids s) (message_id ev) t1"
    and "p = schedule env acts (perform env (Run k t1) (tasks, s))"
    and "gate_runs env acts (perform env (Run k t1) (tasks, s)) < maxsize"
    and "\<forall>t \<in> set (run_times acts). t \<le> t2"
    and "t2 < t1 + ttl"
    and "j < length (fst p)"
    and "fst p ! j = Acked ev'"
    and "message_id ev' = message_id ev"
  shows "perform env (Run k t1) (tasks, s) =
           (tasks[k := Looping ev (concat (concat (blocks ev)))],
            s\<lparr>processed_ids := cache_setitem (processed_ids s) (message_id ev) t1\<rparr>)
    \<and> cache_contains (cache_setitem (processed_ids s) (message_id ev) t1) (message_id ev) t1
    \<and> perform env (Run j t2) p = ((fst p)[j := Returned (Inr ())], snd p)"
proof -
  let ?K = "message_id ev"
  let ?p1 = "perform env (Run k t1) (tasks, s)"
  let ?s1 = "s\<lparr>processed_ids := cache_setitem (processed_ids s) ?K t1\<rparr>"
  from assms(1-4) have a: "?p1 = (tasks[k := Looping ev (concat (concat (blocks ev)))], ?s1)"
    by simp
  from setitem_marks [of "processed_ids s" ?K t1]
  obtain pre where l: "processed_ids ?s1 = pre @ (?K, t1 + ttl) # []"
    and kk: "?K \<notin> fst ` set pre" by auto
  have "t1 < t1 + ttl" by (simp add: ttl_def)
  from mark_contains [OF l kk this]
  have b: "cache_contains (cache_setitem (processed_ids s) ?K t1) ?K t1" by simp
  from l a have l1: "processed_ids (snd ?p1) = pre @ (?K, t1 + ttl) # []" by simp
  from assms(6) have n: "length ([] :: ttl_links) + gate_runs env acts ?p1 < maxsize" by simp
  from assms(7,8) have t: "\<forall>t \<in> set (run_times acts). t < t1 + ttl" by auto
  from schedule_keeps_mark [OF l1 kk n t] assms(5)
  obtain pre' post' where
    l': "processed_ids (snd p) = pre' @ (?K, t1 + ttl) # post'"
    and k': "?K \<notin> fst ` set pre'" by blast
  from mark_contains [OF l' k' assms(8)] assms(11)
  have "cache_contains (processed_ids (snd p)) (message_id ev') t2" by simp
  with assms(9,10) have c: "perform env (Run j t2) p = ((fst p)[j := Returned (Inr ())], snd p)"
    by (cases p) simp
  from a b c show ?thesis by blast
qed


lemma run_handlers_append:
  "run_handlers env (xs @ ys) s = run_handlers env ys (run_handlers env xs s)"
  by (induction xs arbitrary: s) auto

lemma setitem_fresh:
  assumes l: "links = (k0, e0) # rest" and t: "now < e0" and f: "k \<notin> fst ` set links"
  shows "cache_setitem links k now =
     (if maxsize < length links + 1 then drop (length links + 1 - maxsize) links else links)
       @ [(k, now + ttl)]"
proof -
  let ?Q = "\<lambda>(k', expires). k' \<noteq> k"
  let ?room = "if maxsize < length links + 1 then drop (length links + 1 - maxsize) links else links"
  from l t have e: "expire links now = links" by (simp add: expire_def)
  from f have m: "map_of links k = None" by (simp add: map_of_eq_None_iff)
  have sub: "set ?room \<subseteq> set links" by (auto dest: in_set_dropD)
  have "?Q x" if "x \<in> set ?room" for x
  proof -
    from that sub have "fst x \<in> fst ` set links" by blast
    with f have "fst x \<noteq> k" by auto
    then show ?thesis by (cases x) simp
  qed
  then have "\<forall>x \<in> set ?room. ?Q x" by blast
  then have "filter ?Q ?room = ?room" by (rule filter_True)
  then show ?thesis
    by (simp add: cache_setitem_def e m Let_def)
qed

lemma burst_keys:
  "message_id (burst_event i) = message_id (burst_event j) \<longleftrightarrow> i = j"
proof -
  have "i div 10 = j div 10 \<and> i mod 10 = j mod 10 \<longleftrightarrow> i = j"
    by (metis div_mult_mod_eq)
  then show ?thesis
    by (auto simp add: message_id_def burst_event_def example_event_def)
qed

lemma burst_key_other:
  "i < 100 \<Longrightarrow> message_id (burst_event i) \<noteq> message_id (example_event (lit ''Z0'') [])"
  by (simp add: message_id_def burst_event_def example_event_def lit_def)

lemma burst_event_previous: "previous_message (burst_event n) = None"
  by (simp add: burst_event_def example_event_fields)

lemma burst_fills:
  assumes "processed_ids s = [(message_id (example_event (lit ''Z0'') []), 60)]"
  shows "n \<le> 99 \<Longrightarrow>
    processed_ids (run_handlers env (burst n) s) =
      (message_id (example_event (lit ''Z0'') []), 60)
        # map (\<lambda>i. (message_id (burst_event i), 121 / 2)) [0..<n]"
proof (induction n)
  case 0
  with assms show ?case by simp
next
  case (Suc n)
  let ?K = "message_id (example_event (lit ''Z0'') [])"
  let ?L = "(?K, 60 :: rat) # map (\<lambda>i. (message_id (burst_event i), 121 / 2)) [0..<n]"
  let ?s = "run_handlers env (burst n) s"
  from Suc have L: "processed_ids ?s = ?L" by simp
  from Suc.prems have n: "n < 100" by simp
  have f: "message_id (burst_event n) \<notin> fst ` set ?L"
    using burst_key_other [OF n] by (auto simp add: burst_keys)
  then have m: "map_of ?L (message_id (burst_event n)) = None"
    by (rule map_of_eq_None_iff [THEN iffD2])
  have g: "passes_gate (burst_event n) (1 / 2) ?s"
    by (simp only: passes_gate_def L cache_contains_def burst_event_previous m) simp
  have "(1 / 2 :: rat) < 60" by simp
  from setitem_fresh [OF refl this f] Suc.prems
  have "cache_setitem ?L (message_id (burst_event n)) (1 / 2) =
          ?L @ [(message_id (burst_event n), 121 / 2)]"
    by (simp add: maxsize_def ttl_def)
  with g L show ?case
    by (simp add: run_handlers_append handle_processed_ids)
qed

lemma burst_evicts:
  assumes "processed_ids s = [(message_id (example_event (lit ''Z0'') []), 60)]"
  shows "processed_ids (run_handlers env (burst 100) s) =
      map (\<lambda>i. (message_id (burst_event i), 121 / 2)) [0..<100]"
proof -
  let ?K = "message_id (example_event (lit ''Z0'') [])"
  let ?M = "map (\<lambda>i. (message_id (burst_event i), 121 / 2 :: rat)) [0..<99]"
  let ?L = "(?K, 60 :: rat) # ?M"
  let ?s = "run_handlers env (burst 99) s"
  from burst_fills [OF assms, of 99 env] have L: "processed_ids ?s = ?L" by simp
  have f: "message_id (burst_event 99) \<notin> fst ` set ?L"
    using burst_key_other [of 99] by (auto simp add: burst_keys)
  then have m: "map_of ?L (message_id (burst_event 99)) = None"
    by (rule map_of_eq_None_iff [THEN iffD2])
  have g: "passes_gate (burst_event 99) (1 / 2) ?s"
    by (simp only: passes_gate_def L cache_contains_def burst_event_previous m) simp
  have "(1 / 2 :: rat) < 60" by simp
  from setitem_fresh [OF refl this f]
  have c: "cache_setitem ?L (message_id (burst_event 99)) (1 / 2) =
          ?M @ [(message_id (burst_event 99), 121 / 2)]"
    by (simp add: maxsize_def ttl_def)
  have b: "burst 100 = burst 99 @ [(burst_event 99, 1 / 2)]"
  proof -
    have "(100 :: nat) = Suc 99" by simp
    then show ?thesis by (simp only: burst.simps)
  qed
  have u: "[0..<100] = [0..<99] @ [99]"
  proof -
    have "(100 :: nat) = Suc 99" by simp
    then show ?thesis by (simp only: upt_Suc) simp
  qed
  from g L c show ?thesis
    by (simp only: b u run_handlers_append) (simp add: handle_processed_ids)
qed

lemma first_gate:
  "passes_gate (example_event c items) now (initial_state w)"
  by (simp add: passes_gate_def example_event_fields initial_state_def fresh_key)

lemma in_flight_run:
  "schedule (example_env answer_en slack_accepts) in_flight
     (perform (example_env answer_en slack_accepts) (Run 0 0)
        ([Acked (example_event (lit ''Z0'') [link_item up_url])],
         \<lparr>outside = [], trace = [Ack], processed_ids = []\<rparr>)) =
     ([Looping (example_event (lit ''Z0'') [link_item up_url]) [link_item up_url],
       Looping (burst_event 0) [],
       Acked (example_event (lit ''Z0'') [link_item up_url])],
      \<lparr>outside = [], trace = [Ack, Ack, Ack],
       processed_ids = [(message_id (example_event (lit ''Z0'') [link_item up_url]), 60),
                        (message_id (burst_event 0), 121 / 2)]\<rparr>)"
  by code_simp

lemma in_flight_gates:
  "gate_runs (example_env answer_en slack_accepts) in_flight
     (perform (example_env answer_en slack_accepts) (Run 0 0)
        ([Acked (example_event (lit ''Z0'') [link_item up_url])],
         \<lparr>outside = [], trace = [Ack], processed_ids = []\<rparr>)) = 1"
  "run_times in_flight = [1 / 2, 1 / 2, 3 / 4]"
  by code_simp+

theorem duplicate_is_suppressed_witness:
  "perform (example_env answer_en slack_accepts) (Run 2 1)
     (schedule (example_env answer_en slack_accepts) in_flight
        (perform (example_env answer_en slack_accepts) (Run 0 0)
           ([Acked (example_event (lit ''Z0'') [link_item up_url])],
            \<lparr>outside = [], trace = [Ack], processed_ids = []\<rparr>))) =
     ([Looping (example_event (lit ''Z0'') [link_item up_url]) [link_item up_url],
       Looping (burst_event 0) [],
       Returned (Inr ())],
      \<lparr>outside = [], trace = [Ack, Ack, Ack],
       processed_ids = [(message_id (example_event (lit ''Z0'') [link_item up_url]), 60),
                        (message_id (burst_event 0), 121 / 2)]\<rparr>)"
proof -
  let ?E = "example_env answer_en slack_accepts"
  let ?ev = "example_event (lit ''Z0'') [link_item up_url]"
  let ?s = "\<lparr>outside = [], trace = [Ack], processed_ids = []\<rparr> :: post list st"
  let ?p = "schedule ?E in_flight (perform ?E (Run 0 0) ([Acked ?ev], ?s))"
  have k0: "0 < length [Acked ?ev]" "[Acked ?ev] ! 0 = Acked ?ev"
    by simp_all
  have a: "\<not> cache_contains (processed_ids ?s) (message_id ?ev) 0"
    by (simp add: fresh_key)
  have b: "gate_runs ?E in_flight (perform ?E (Run 0 0) ([Acked ?ev], ?s)) < maxsize"
    by (simp only: in_flight_gates) (simp add: maxsize_def)
  have c: "\<forall>t \<in> set (run_times in_flight). t \<le> 1"
    by (simp add: in_flight_gates)
  have d: "(1 :: rat) < 0 + ttl"
    by (simp add: ttl_def)
  have e: "2 < length (fst ?p)" "fst ?p ! 2 = Acked ?ev"
    by (simp_all only: in_flight_run) simp_all
  from duplicate_is_suppressed
    [where tasks = "[Acked ?ev]" and k = 0 and s = ?s and env = ?E and acts = in_flight and p = ?p
       and ev = ?ev and ev' = ?ev and ?t1.0 = 0 and ?t2.0 = 1 and j = 2,
     OF k0 example_event_fields(1) a refl b c d e refl]
  have "perform ?E (Run 2 1) ?p = ((fst ?p)[2 := Returned (Inr ())], snd ?p)"
    by blast
  then show ?thesis
    by (simp only: in_flight_run) simp
qed


text \<open>
  Claim C2 as stated fails: an event passes the gate at time 0, a hundred events of
  other channels follow at time \<open>1 / 2\<close>, and the same event passes the gate again at
  time 1, well within the sixty seconds: its key was dropped to make room.
\<close>

theorem full_cache_readmits_duplicate:
  "passes_gate (example_event (lit ''Z0'') []) 0 (initial_state ([] :: post list))
   \<and> (1 :: rat) < 0 + ttl
   \<and> passes_gate (example_event (lit ''Z0'') []) 1
       (run_handlers (example_env answer_en slack_accepts) (burst 100)
          (snd (handle_message_events (example_env answer_en slack_accepts)
                  (example_event (lit ''Z0'') []) 0 (initial_state []))))"
proof -
  let ?ev = "example_event (lit ''Z0'') []"
  let ?E = "example_env answer_en slack_accepts"
  let ?s1 = "snd (handle_message_events ?E ?ev 0 (initial_state []))"
  let ?M = "map (\<lambda>i. (message_id (burst_event i), 121 / 2 :: rat)) [0..<100]"
  have "processed_ids ?s1 = [(message_id ?ev, 60)]"
    by (simp add: handle_processed_ids first_gate) (simp add: initial_state_def fresh_key)
  from burst_evicts [OF this, of ?E]
  have m: "processed_ids (run_handlers ?E (burst 100) ?s1) = ?M" .
  have "message_id ?ev \<notin> fst ` set ?M"
    using burst_key_other by fastforce
  then have "map_of ?M (message_id ?ev) = None"
    by (rule map_of_eq_None_iff [THEN iffD2])
  then have "passes_gate ?ev 1 (run_handlers ?E (burst 100) ?s1)"
    by (simp only: passes_gate_def m cache_contains_def example_event_fields) simp
  then show ?thesis
    by (simp add: first_gate ttl_def)
qed

end
